theory Spec2Isabelle
  imports Complex_Main "HOL-Library.Monad_Syntax" "HOL-Library.Log_Nat"
    "HOL-Library.Code_Target_Numeral"
begin

section \<open>JavaScript numbers\<close>

text \<open>
  A value of TypeScript's \<open>number\<close> is an IEEE 754 double: a finite number, \<open>NaN\<close>,
  \<open>Infinity\<close> or \<open>-Infinity\<close>. \<open>Fin x\<close> is the finite double whose value is the real
  \<open>x\<close>. The negative zero is left out (a zero is \<open>+0\<close>). The operators below are the
  ones the program uses, with the results ECMAScript gives them: the exact result rounded
  to the nearest double, and the special values.
\<close>

datatype number = Fin real | NaN | PosInf | NegInf

subsection \<open>Rounding to a double\<close>

text \<open>
  \<open>ilog2 x\<close> is the binary exponent of a positive real: \<open>2^(ilog2 x) \<le> x < 2^(ilog2 x + 1)\<close>.
\<close>

definition ilog2 :: "real \<Rightarrow> int" where
  "ilog2 x = (if 1 \<le> x then bitlen \<lfloor>x\<rfloor> - 1 else - bitlen (\<lceil>1 / x\<rceil> - 1))"

text \<open>The nearest integer, the even one of two equally near.\<close>

definition round_even :: "real \<Rightarrow> int" where
  "round_even r =
     (let n = \<lfloor>r\<rfloor>; d = r - of_int n
      in if d < 1 / 2 then n else if 1 / 2 < d then n + 1 else if even n then n else n + 1)"

text \<open>
  Around \<open>x\<close> the doubles are the multiples of \<open>2^(grid x)\<close>: a significand of 53 bits,
  and no exponent below that of the subnormal numbers.
\<close>

definition grid :: "real \<Rightarrow> int" where
  "grid x = max (ilog2 \<bar>x\<bar>) (- 1022) - 52"

text \<open>
  \<open>fl x\<close> is \<open>x\<close> rounded to the nearest double, ties to the even significand, before the
  test for overflow: a result of \<open>2^1024\<close> or more stands for an infinity.
\<close>

definition fl :: "real \<Rightarrow> real" where
  "fl x = (if x = 0 then 0 else of_int (round_even (x / 2 powi grid x)) * 2 powi grid x)"

definition is_double :: "real \<Rightarrow> bool" where
  "is_double x = (fl x = x \<and> \<bar>x\<bar> < 2 ^ 1024)"

text \<open>The double that an operator returns for the exact result \<open>x\<close>.\<close>

definition to_number :: "real \<Rightarrow> number" where
  "to_number x =
     (let y = fl x
      in if 2 ^ 1024 \<le> y then PosInf else if y \<le> - (2 ^ 1024) then NegInf else Fin y)"

text \<open>The values of the type: every number but a \<open>Fin x\<close> whose \<open>x\<close> is no double.\<close>

fun is_Number :: "number \<Rightarrow> bool" where
  "is_Number (Fin x) = is_double x"
| "is_Number _ = True"

subsection \<open>The operators\<close>

text \<open>\<open>!x\<close> is false exactly on the truthy numbers: every number but \<open>0\<close> and \<open>NaN\<close>.\<close>

fun truthy_number :: "number \<Rightarrow> bool" where
  "truthy_number (Fin x) = (x \<noteq> 0)"
| "truthy_number NaN = False"
| "truthy_number PosInf = True"
| "truthy_number NegInf = True"

fun isNaN :: "number \<Rightarrow> bool" where
  "isNaN NaN = True"
| "isNaN _ = False"

fun js_neg :: "number \<Rightarrow> number" where
  "js_neg (Fin x) = Fin (- x)"
| "js_neg NaN = NaN"
| "js_neg PosInf = NegInf"
| "js_neg NegInf = PosInf"

text \<open>\<open>a + b\<close>\<close>

fun js_add :: "number \<Rightarrow> number \<Rightarrow> number" where
  "js_add NaN _ = NaN"
| "js_add _ NaN = NaN"
| "js_add (Fin x) (Fin y) = to_number (x + y)"
| "js_add PosInf NegInf = NaN"
| "js_add NegInf PosInf = NaN"
| "js_add PosInf _ = PosInf"
| "js_add _ PosInf = PosInf"
| "js_add NegInf _ = NegInf"
| "js_add _ NegInf = NegInf"

text \<open>\<open>a - b\<close>\<close>

definition js_sub :: "number \<Rightarrow> number \<Rightarrow> number" where
  "js_sub a b = js_add a (js_neg b)"

text \<open>\<open>a * b\<close>\<close>

fun js_mul :: "number \<Rightarrow> number \<Rightarrow> number" where
  "js_mul NaN _ = NaN"
| "js_mul _ NaN = NaN"
| "js_mul (Fin x) (Fin y) = to_number (x * y)"
| "js_mul (Fin x) PosInf = (if x = 0 then NaN else if 0 < x then PosInf else NegInf)"
| "js_mul (Fin x) NegInf = (if x = 0 then NaN else if 0 < x then NegInf else PosInf)"
| "js_mul PosInf (Fin y) = (if y = 0 then NaN else if 0 < y then PosInf else NegInf)"
| "js_mul NegInf (Fin y) = (if y = 0 then NaN else if 0 < y then NegInf else PosInf)"
| "js_mul PosInf PosInf = PosInf"
| "js_mul PosInf NegInf = NegInf"
| "js_mul NegInf PosInf = NegInf"
| "js_mul NegInf NegInf = PosInf"

text \<open>\<open>a / b\<close>: a division by zero raises nothing, it gives an infinity or \<open>NaN\<close>.\<close>

fun js_div :: "number \<Rightarrow> number \<Rightarrow> number" where
  "js_div NaN _ = NaN"
| "js_div _ NaN = NaN"
| "js_div (Fin x) (Fin y) =
     (if y = 0 then (if x = 0 then NaN else if 0 < x then PosInf else NegInf)
      else to_number (x / y))"
| "js_div (Fin x) _ = Fin 0"
| "js_div PosInf (Fin y) = (if 0 \<le> y then PosInf else NegInf)"
| "js_div NegInf (Fin y) = (if 0 \<le> y then NegInf else PosInf)"
| "js_div _ _ = NaN"

text \<open>
  \<open>a % b\<close> is the remainder of the division truncated towards zero: it has the sign of
  the dividend. The remainder of two doubles is a double, so nothing is rounded.
\<close>

definition trunc :: "real \<Rightarrow> int" where
  "trunc r = (if r < 0 then \<lceil>r\<rceil> else \<lfloor>r\<rfloor>)"

fun js_rem :: "number \<Rightarrow> number \<Rightarrow> number" where
  "js_rem NaN _ = NaN"
| "js_rem _ NaN = NaN"
| "js_rem (Fin x) (Fin y) = (if y = 0 then NaN else Fin (x - y * of_int (trunc (x / y))))"
| "js_rem (Fin x) _ = Fin x"
| "js_rem _ _ = NaN"

fun Math_floor :: "number \<Rightarrow> number" where
  "Math_floor (Fin x) = Fin (of_int \<lfloor>x\<rfloor>)"
| "Math_floor n = n"

fun Math_max :: "number \<Rightarrow> number \<Rightarrow> number" where
  "Math_max NaN _ = NaN"
| "Math_max _ NaN = NaN"
| "Math_max (Fin x) (Fin y) = Fin (max x y)"
| "Math_max PosInf _ = PosInf"
| "Math_max _ PosInf = PosInf"
| "Math_max NegInf b = b"
| "Math_max a NegInf = a"

fun Math_min :: "number \<Rightarrow> number \<Rightarrow> number" where
  "Math_min NaN _ = NaN"
| "Math_min _ NaN = NaN"
| "Math_min (Fin x) (Fin y) = Fin (min x y)"
| "Math_min NegInf _ = NegInf"
| "Math_min _ NegInf = NegInf"
| "Math_min PosInf b = b"
| "Math_min a PosInf = a"

text \<open>\<open>a < b\<close> and \<open>a <= b\<close>: every comparison with \<open>NaN\<close> is false.\<close>

fun js_lt :: "number \<Rightarrow> number \<Rightarrow> bool" where
  "js_lt NaN _ = False"
| "js_lt _ NaN = False"
| "js_lt (Fin x) (Fin y) = (x < y)"
| "js_lt _ NegInf = False"
| "js_lt PosInf _ = False"
| "js_lt _ _ = True"

fun js_le :: "number \<Rightarrow> number \<Rightarrow> bool" where
  "js_le NaN _ = False"
| "js_le _ NaN = False"
| "js_le (Fin x) (Fin y) = (x \<le> y)"
| "js_le NegInf _ = True"
| "js_le _ PosInf = True"
| "js_le _ _ = False"

text \<open>
  \<open>parseFloat(a.toFixed(2))\<close>. \<open>toFixed(2)\<close> prints the decimal \<open>n / 100\<close> for the
  integer \<open>n\<close> nearest to \<open>100 * |a|\<close> (the larger one of two equally near), with the
  sign of \<open>a\<close>; from \<open>10^21\<close> on it prints the number itself, and it prints \<open>NaN\<close>
  and the infinities by name. \<open>parseFloat\<close> reads each of these strings back, a decimal
  as the double nearest to it. The string in between is represented by the real it
  denotes.
\<close>

fun parseFloat_toFixed2 :: "number \<Rightarrow> number" where
  "parseFloat_toFixed2 (Fin x) =
     (if 10 ^ 21 \<le> \<bar>x\<bar> then Fin x
      else to_number (sgn x * of_int \<lfloor>\<bar>x\<bar> * 100 + 1 / 2\<rfloor> / 100))"
| "parseFloat_toFixed2 n = n"

section \<open>Strings of numbers\<close>

text \<open>The decimal digits of a natural number, most significant first.\<close>

fun digits :: "nat \<Rightarrow> string" where
  "digits n =
     (if n < 10 then [''0123456789'' ! n]
      else digits (n div 10) @ [''0123456789'' ! (n mod 10)])"

declare digits.simps [simp del]

text \<open>
  \<open>n.toString()\<close> prints the shortest decimal that reads back as the double \<open>n\<close>. For
  a whole number \<open>m\<close> it is \<open>m\<close> rounded to its first \<open>k\<close> digits, for the least \<open>k\<close> that
  reads back: \<open>shortest m j\<close> tries to clear the last \<open>j + 1\<close> digits, then the last
  \<open>j\<close>, and so on.
\<close>

fun shortest :: "int \<Rightarrow> nat \<Rightarrow> int" where
  "shortest m 0 = m"
| "shortest m (Suc j) =
     (let c = round_even (of_int m / 10 ^ Suc j) * 10 ^ Suc j
      in if fl (of_int c) = of_int m then c else shortest m j)"

text \<open>
  Below \<open>10^21\<close> the decimal is printed in full. From there on it is printed with an
  exponent: the first digit, the other digits up to the last one that is not zero after a
  point, and \<open>e+\<close> with the number of digits that follow the first.
\<close>

definition strip_zeros :: "string \<Rightarrow> string" where
  "strip_zeros ds = rev (dropWhile (\<lambda>c. c = CHR ''0'') (rev ds))"

definition exponent_form :: "nat \<Rightarrow> string" where
  "exponent_form c =
     (let ds = digits c; sig = strip_zeros ds
      in hd sig # (if tl sig = [] then [] else ''.'' @ tl sig) @ ''e+'' @
         digits (length ds - 1))"

definition integer_string :: "nat \<Rightarrow> string" where
  "integer_string m =
     (let c = nat (shortest (int m) (length (digits m) - 1))
      in if c < 10 ^ 21 then digits c else exponent_form c)"

text \<open>
  \<open>n.toString()\<close> for a number \<open>n\<close> without a fractional part, which is all the program
  prints (each is a result of \<open>Math.floor\<close>): a minus sign in front of a negative number,
  and the names of the special values.
\<close>

fun toString :: "number \<Rightarrow> string" where
  "toString (Fin x) =
     (if x < 0 then ''-'' @ integer_string (nat (- \<lfloor>x\<rfloor>)) else integer_string (nat \<lfloor>x\<rfloor>))"
| "toString NaN = ''NaN''"
| "toString PosInf = ''Infinity''"
| "toString NegInf = ''-Infinity''"

text \<open>\<open>s.padStart(2, '0')\<close>\<close>

definition padStart2 :: "string \<Rightarrow> string" where
  "padStart2 s = replicate (2 - length s) (CHR ''0'') @ s"

section \<open>The utilities\<close>

text \<open>\<open>formatTime\<close>: elapsed seconds as \<open>MM:SS.ff\<close>.\<close>

definition formatTime :: "number \<Rightarrow> string" where
  "formatTime seconds =
     (if \<not> truthy_number seconds \<or> isNaN seconds then ''00:00''
      else
        let mins = Math_floor (js_div seconds (Fin 60));
            secs = Math_floor (js_rem seconds (Fin 60));
            ms = Math_floor (js_mul (js_rem seconds (Fin 1)) (Fin 100))
        in padStart2 (toString mins) @ '':'' @ padStart2 (toString secs) @ ''.'' @
           padStart2 (toString ms))"

text \<open>The bounding box of an element, as \<open>getBoundingClientRect\<close> returns it.\<close>

record DOMRect =
  rect_left :: number
  rect_top :: number
  rect_width :: number
  rect_height :: number

record Point =
  pos_x :: number
  pos_y :: number

definition normalizePosition :: "number \<Rightarrow> number \<Rightarrow> DOMRect \<Rightarrow> Point" where
  "normalizePosition clientX clientY rect =
     \<lparr> pos_x = js_div (js_sub clientX (rect_left rect)) (rect_width rect),
       pos_y = js_div (js_sub clientY (rect_top rect)) (rect_height rect) \<rparr>"

definition denormalizePosition :: "number \<Rightarrow> number \<Rightarrow> number \<Rightarrow> number \<Rightarrow> Point" where
  "denormalizePosition px py w h = \<lparr> pos_x = js_mul px w, pos_y = js_mul py h \<rparr>"

section \<open>The data model\<close>

text \<open>
  The interfaces of \<open>types/index.ts\<close>. A field keeps its name where the name is used
  once; \<open>id\<close>, \<open>x\<close>, \<open>y\<close>, \<open>time\<close>, \<open>color\<close>, \<open>size\<close>, \<open>path\<close>, \<open>text\<close>, \<open>name\<close>,
  \<open>duration\<close> and \<open>notes\<close> carry the interface as a prefix.
\<close>

record DrawingPath =
  path_x :: number
  path_y :: number
  isStart :: bool

record Drawing =
  drawing_id :: string
  drawing_time :: number
  drawing_color :: string
  drawing_size :: number
  drawing_path :: "DrawingPath list"

record Annotation =
  anno_id :: string
  anno_x :: number
  anno_y :: number
  anno_time :: number
  anno_text :: string
  anno_color :: string

record Clip =
  clip_id :: string
  clip_name :: string
  startTime :: number
  endTime :: number
  clip_duration :: number
  speed :: number
  zoomX :: number
  zoomY :: number

record AnalysisData =
  version :: string
  data_notes :: string
  data_drawings :: "Drawing list"
  data_annotations :: "Annotation list"
  data_clips :: "Clip list"
  primaryVideoFileName :: "string option"

text \<open>\<open>Number.isFinite\<close>, and the records whose numbers are all finite.\<close>

fun isFinite :: "number \<Rightarrow> bool" where
  "isFinite (Fin r) = True"
| "isFinite _ = False"




definition finite_Clip :: "Clip \<Rightarrow> bool" where
  "finite_Clip c =
     (isFinite (startTime c) \<and> isFinite (endTime c) \<and> isFinite (clip_duration c) \<and>
      isFinite (speed c) \<and> isFinite (zoomX c) \<and> isFinite (zoomY c))"

datatype ToolMode = point_mode | pen_mode

section \<open>The playback surface (\<open>VideoPlayer.tsx\<close>)\<close>

text \<open>
  The component's own state: its two element references (\<open>None\<close> while the element is
  not mounted), the capture flag and the path being recorded. Of the video element the
  model keeps the position, the transport and the mute flag; of the container, its
  bounding box. \<open>calls\<close> records, in order, the calls made through the imperative
  handle; it is not a variable of the program. The component renders again after each
  handler, so a handler reads the state that the one before it has set.
\<close>

record HTMLVideoElement =
  v_currentTime :: number
  v_paused :: bool
  v_muted :: bool

datatype handle_call = Play | Pause | Seek number | SetMuted bool

record VideoPlayer =
  videoRef :: "HTMLVideoElement option"
  containerRef :: "DOMRect option"
  isDrawing :: bool
  currentPathRef :: "DrawingPath list"
  calls :: "handle_call list"

text \<open>The imperative handle: each method does nothing without the video element.\<close>

definition play :: "VideoPlayer \<Rightarrow> VideoPlayer" where
  "play p = p\<lparr> videoRef := map_option (\<lambda>v. v\<lparr> v_paused := False \<rparr>) (videoRef p),
                calls := calls p @ [Play] \<rparr>"

definition pause :: "VideoPlayer \<Rightarrow> VideoPlayer" where
  "pause p = p\<lparr> videoRef := map_option (\<lambda>v. v\<lparr> v_paused := True \<rparr>) (videoRef p),
                 calls := calls p @ [Pause] \<rparr>"

definition seek :: "number \<Rightarrow> VideoPlayer \<Rightarrow> VideoPlayer" where
  "seek t p = p\<lparr> videoRef := map_option (\<lambda>v. v\<lparr> v_currentTime := t \<rparr>) (videoRef p),
                  calls := calls p @ [Seek t] \<rparr>"

definition setMuted :: "bool \<Rightarrow> VideoPlayer \<Rightarrow> VideoPlayer" where
  "setMuted m p = p\<lparr> videoRef := map_option (\<lambda>v. v\<lparr> v_muted := m \<rparr>) (videoRef p),
                      calls := calls p @ [SetMuted m] \<rparr>"

text \<open>
  A pointer handler returns the component's new state and the callback of the parent it
  invoked, if any. The properties it reads (\<open>toolMode\<close>, \<open>currentColor\<close>, \<open>brushSize\<close>)
  and the pointer's position are arguments; so is the clock that \<open>Date.now()\<close> reads.
\<close>

datatype callback =
  onAddAnnotation number number number
| onAddDrawing Drawing

definition handlePointerDown ::
    "ToolMode \<Rightarrow> number \<Rightarrow> number \<Rightarrow> VideoPlayer \<Rightarrow> VideoPlayer \<times> callback option" where
  "handlePointerDown toolMode clientX clientY p =
     (case (containerRef p, videoRef p) of
        (Some rect, Some v) \<Rightarrow>
          let pos = normalizePosition clientX clientY rect in
          (case toolMode of
             point_mode \<Rightarrow> (p, Some (onAddAnnotation (pos_x pos) (pos_y pos) (v_currentTime v)))
           | pen_mode \<Rightarrow>
               (p\<lparr> isDrawing := True,
                   currentPathRef := [\<lparr> path_x = pos_x pos, path_y = pos_y pos, isStart = True \<rparr>] \<rparr>,
                None))
      | _ \<Rightarrow> (p, None))"

definition handlePointerMove ::
    "ToolMode \<Rightarrow> number \<Rightarrow> number \<Rightarrow> VideoPlayer \<Rightarrow> VideoPlayer \<times> callback option" where
  "handlePointerMove toolMode clientX clientY p =
     (if \<not> isDrawing p \<or> toolMode \<noteq> pen_mode then (p, None)
      else case containerRef p of
        None \<Rightarrow> (p, None)
      | Some rect \<Rightarrow>
          let pos = normalizePosition clientX clientY rect in
          (p\<lparr> currentPathRef :=
                currentPathRef p @ [\<lparr> path_x = pos_x pos, path_y = pos_y pos, isStart = False \<rparr>] \<rparr>,
           None))"

text \<open>\<open>handlePointerUp\<close> serves both \<open>onPointerUp\<close> and \<open>onPointerLeave\<close>.\<close>

definition handlePointerUp ::
    "string \<Rightarrow> number \<Rightarrow> string \<Rightarrow> VideoPlayer \<Rightarrow> VideoPlayer \<times> callback option" where
  "handlePointerUp currentColor brushSize now p =
     (case videoRef p of
        Some v \<Rightarrow>
          if isDrawing p then
            (p\<lparr> isDrawing := False, currentPathRef := [] \<rparr>,
             if 1 < length (currentPathRef p) then
               Some (onAddDrawing
                 \<lparr> drawing_id = now,
                   drawing_time = v_currentTime v,
                   drawing_color = currentColor,
                   drawing_size = brushSize,
                   drawing_path = currentPathRef p \<rparr>)
             else None)
          else (p, None)
      | None \<Rightarrow> (p, None))"

text \<open>
  The canvas calls that the render loop makes for one path (the body of
  \<open>path.forEach\<close>, with the flag \<open>first\<close>), on a canvas of the given width and height.
\<close>

datatype canvas_call = moveTo number number | lineTo number number | stroke | beginPath

fun draw_path :: "bool \<Rightarrow> number \<Rightarrow> number \<Rightarrow> DrawingPath list \<Rightarrow> canvas_call list" where
  "draw_path first w h [] = []"
| "draw_path first w h (p # ps) =
     (let pos = denormalizePosition (path_x p) (path_y p) w h in
      if first \<or> isStart p then moveTo (pos_x pos) (pos_y pos) # draw_path False w h ps
      else [lineTo (pos_x pos) (pos_y pos), stroke, beginPath, moveTo (pos_x pos) (pos_y pos)]
           @ draw_path False w h ps)"

text \<open>
  A path drawn as one segment: the pen is put on the first point, and a line is drawn and
  stroked to each point after it.
\<close>

fun draw_segment :: "number \<Rightarrow> number \<Rightarrow> DrawingPath list \<Rightarrow> canvas_call list" where
  "draw_segment w h [] = []"
| "draw_segment w h (q # qs) =
     moveTo (js_mul (path_x q) w) (js_mul (path_y q) h) #
     concat (map (\<lambda>r. [lineTo (js_mul (path_x r) w) (js_mul (path_y r) h), stroke, beginPath,
                         moveTo (js_mul (path_x r) w) (js_mul (path_y r) h)]) qs)"

text \<open>A path of one segment: only its first point is flagged as a start.\<close>

definition single_segment :: "DrawingPath list \<Rightarrow> bool" where
  "single_segment path =
     (case path of [] \<Rightarrow> False | q # qs \<Rightarrow> isStart q \<and> list_all (\<lambda>r. \<not> isStart r) qs)"

text \<open>
  What the capture keeps true of the path it records: the path is empty or of one
  segment, and it is not empty while a stroke is in progress.
\<close>

definition path_inv :: "VideoPlayer \<Rightarrow> bool" where
  "path_inv p =
     ((currentPathRef p = [] \<or> single_segment (currentPathRef p)) \<and>
      (isDrawing p \<longrightarrow> currentPathRef p \<noteq> []))"

text \<open>
  The point that a handler records for a pointer position, and a run of
  \<open>pointermove\<close> events.
\<close>

definition sample :: "bool \<Rightarrow> DOMRect \<Rightarrow> number \<times> number \<Rightarrow> DrawingPath" where
  "sample start rect c =
     (let pos = normalizePosition (fst c) (snd c) rect
      in \<lparr> path_x = pos_x pos, path_y = pos_y pos, isStart = start \<rparr>)"

definition pointer_moves ::
    "ToolMode \<Rightarrow> (number \<times> number) list \<Rightarrow> VideoPlayer \<Rightarrow> VideoPlayer" where
  "pointer_moves m cs p = foldl (\<lambda>q c. fst (handlePointerMove m (fst c) (snd c) q)) p cs"

text \<open>
  The states of the component: it starts without a stroke; a pointer handler runs with
  whatever properties the parent passes at that time; and between two events the parent
  and the browser may mount, lay out, seek and drive the elements.
\<close>

definition initial_VideoPlayer :: VideoPlayer where
  "initial_VideoPlayer =
     \<lparr> videoRef = None, containerRef = None, isDrawing = False, currentPathRef = [], calls = [] \<rparr>"

inductive reachable_VideoPlayer :: "VideoPlayer \<Rightarrow> bool" where
  initial: "reachable_VideoPlayer initial_VideoPlayer"
| pointer_down:
    "reachable_VideoPlayer p \<Longrightarrow> reachable_VideoPlayer (fst (handlePointerDown m cx cy p))"
| pointer_move:
    "reachable_VideoPlayer p \<Longrightarrow> reachable_VideoPlayer (fst (handlePointerMove m cx cy p))"
| pointer_up:
    "reachable_VideoPlayer p \<Longrightarrow> reachable_VideoPlayer (fst (handlePointerUp c b now p))"
| elements:
    "reachable_VideoPlayer p \<Longrightarrow>
     reachable_VideoPlayer (p\<lparr> videoRef := v, containerRef := r, calls := cs \<rparr>)"

section \<open>JSON, files and archives\<close>

text \<open>
  \<open>JSON\<close>, \<open>File\<close>, \<open>Blob\<close> and \<open>JSZip\<close> belong to the platform and to a library. They
  are modelled by what the program observes of them.

  A JSON value, as \<open>JSON.parse\<close> returns it; an object lists its members, each name once.
\<close>

datatype json =
  JNull
| JBool bool
| JNum real
| JStr string
| JArr "json list"
| JObj "(string \<times> json) list"

text \<open>
  A string that the program tests with \<open>if (s)\<close> and gives to \<open>JSON.parse\<close>: the empty
  string, a string that \<open>JSON.parse\<close> rejects with a \<open>SyntaxError\<close>, or the text of a
  JSON value. \<open>JSON.stringify\<close> writes the text of the value it is given, and
  \<open>JSON.parse\<close> reads that value back.
\<close>

datatype json_text = Empty | Malformed | Document json

datatype error = ZipError | SyntaxError | TypeError

definition JSON_parse :: "json_text \<Rightarrow> error + json" where
  "JSON_parse t = (case t of Document v \<Rightarrow> Inr v | _ \<Rightarrow> Inl SyntaxError)"

text \<open>
  The bytes of a blob: those of a string (its UTF-8 encoding), or other bytes, as the
  bytes of a video. No bytes at all read as the empty string; other bytes that are not
  those of a string do not read as a JSON text.
\<close>

datatype bytes = Encoded json_text | Binary "nat list"

fun as_string :: "bytes \<Rightarrow> json_text" where
  "as_string (Encoded t) = t"
| "as_string (Binary bs) = (if bs = [] then Empty else Malformed)"

record Blob =
  blob_type :: string
  blob_bytes :: bytes

record File = Blob +
  file_name :: string

text \<open>
  An entry of a zip archive holds data, or is damaged: then reading it fails. The reads
  return what the promise settles to. \<open>async("blob")\<close> makes a blob of the empty type.
\<close>

datatype ZipObject = Stored bytes | Damaged

type_synonym JSZip = "string \<rightharpoonup> ZipObject"

definition async_string :: "ZipObject \<Rightarrow> error + json_text" where
  "async_string e = (case e of Stored d \<Rightarrow> Inr (as_string d) | Damaged \<Rightarrow> Inl ZipError)"

definition async_blob :: "ZipObject \<Rightarrow> error + Blob" where
  "async_blob e =
     (case e of Stored d \<Rightarrow> Inr \<lparr> blob_type = [], blob_bytes = d \<rparr> | Damaged \<Rightarrow> Inl ZipError)"

text \<open>\<open>zip.file(name, data)\<close> adds the entry, in the place of an entry of that name.\<close>

definition JSZip_file :: "string \<Rightarrow> bytes \<Rightarrow> JSZip \<Rightarrow> JSZip" where
  "JSZip_file name d z = z(name \<mapsto> Stored d)"

text \<open>
  A file given to the archive input is represented by what \<open>JSZip.loadAsync\<close> makes of
  it: a rejection, or the entries. \<open>generateAsync\<close> writes the file that loads as the
  entries it was given.
\<close>

datatype archive = NotZip | Zip JSZip

definition JSZip_loadAsync :: "archive \<Rightarrow> error + JSZip" where
  "JSZip_loadAsync a = (case a of NotZip \<Rightarrow> Inl ZipError | Zip z \<Rightarrow> Inr z)"

subsection \<open>Writing the data\<close>

text \<open>\<open>JSON.stringify\<close> writes \<open>null\<close> for a number that is not finite.\<close>

fun JSON_number :: "number \<Rightarrow> json" where
  "JSON_number (Fin r) = JNum r"
| "JSON_number _ = JNull"

definition JSON_DrawingPath :: "DrawingPath \<Rightarrow> json" where
  "JSON_DrawingPath p =
     JObj [(''x'', JSON_number (path_x p)), (''y'', JSON_number (path_y p)),
           (''isStart'', JBool (isStart p))]"

definition JSON_Drawing :: "Drawing \<Rightarrow> json" where
  "JSON_Drawing d =
     JObj [(''id'', JStr (drawing_id d)), (''time'', JSON_number (drawing_time d)),
           (''color'', JStr (drawing_color d)), (''size'', JSON_number (drawing_size d)),
           (''path'', JArr (map JSON_DrawingPath (drawing_path d)))]"

definition JSON_Annotation :: "Annotation \<Rightarrow> json" where
  "JSON_Annotation a =
     JObj [(''id'', JStr (anno_id a)), (''x'', JSON_number (anno_x a)),
           (''y'', JSON_number (anno_y a)), (''time'', JSON_number (anno_time a)),
           (''text'', JStr (anno_text a)), (''color'', JStr (anno_color a))]"

definition JSON_Clip :: "Clip \<Rightarrow> json" where
  "JSON_Clip c =
     JObj [(''id'', JStr (clip_id c)), (''name'', JStr (clip_name c)),
           (''startTime'', JSON_number (startTime c)), (''endTime'', JSON_number (endTime c)),
           (''duration'', JSON_number (clip_duration c)), (''speed'', JSON_number (speed c)),
           (''zoomX'', JSON_number (zoomX c)), (''zoomY'', JSON_number (zoomY c))]"

definition JSON_stringify :: "AnalysisData \<Rightarrow> json_text" where
  "JSON_stringify data =
     Document (JObj
       ([(''version'', JStr (version data)), (''notes'', JStr (data_notes data)),
         (''drawings'', JArr (map JSON_Drawing (data_drawings data))),
         (''annotations'', JArr (map JSON_Annotation (data_annotations data))),
         (''clips'', JArr (map JSON_Clip (data_clips data)))]
        @ (case primaryVideoFileName data of
             None \<Rightarrow> []
           | Some n \<Rightarrow> [(''primaryVideoFileName'', JStr n)])))"

subsection \<open>Reading the data\<close>

text \<open>
  \<open>const data: AnalysisData = JSON.parse(jsonContent)\<close> checks nothing: the program
  stores what the document holds. The functions below read a value at the type that the
  cast gives it; they return \<open>None\<close> for a value that is not of that type, which the
  records of the data model cannot hold.
\<close>

text \<open>\<open>v.k\<close> for a value \<open>v\<close> other than \<open>null\<close>; \<open>None\<close> is \<open>undefined\<close>.\<close>

fun member :: "json \<Rightarrow> string \<Rightarrow> json option" where
  "member (JObj ms) k = map_of ms k"
| "member _ k = None"

fun truthy_json :: "json \<Rightarrow> bool" where
  "truthy_json JNull = False"
| "truthy_json (JBool b) = b"
| "truthy_json (JNum r) = (r \<noteq> 0)"
| "truthy_json (JStr t) = (t \<noteq> [])"
| "truthy_json _ = True"

fun as_number :: "json \<Rightarrow> number option" where
  "as_number (JNum r) = Some (Fin r)"
| "as_number _ = None"

fun as_text :: "json \<Rightarrow> string option" where
  "as_text (JStr t) = Some t"
| "as_text _ = None"

fun as_boolean :: "json \<Rightarrow> bool option" where
  "as_boolean (JBool b) = Some b"
| "as_boolean _ = None"

fun as_array :: "(json \<Rightarrow> 'a option) \<Rightarrow> json \<Rightarrow> 'a list option" where
  "as_array f (JArr vs) = those (map f vs)"
| "as_array f _ = None"

definition field :: "json \<Rightarrow> string \<Rightarrow> (json \<Rightarrow> 'a option) \<Rightarrow> 'a option" where
  "field v k f = (case member v k of None \<Rightarrow> None | Some w \<Rightarrow> f w)"

definition as_DrawingPath :: "json \<Rightarrow> DrawingPath option" where
  "as_DrawingPath v = do {
     px \<leftarrow> field v ''x'' as_number;
     py \<leftarrow> field v ''y'' as_number;
     st \<leftarrow> field v ''isStart'' as_boolean;
     Some \<lparr> path_x = px, path_y = py, isStart = st \<rparr> }"

definition as_Drawing :: "json \<Rightarrow> Drawing option" where
  "as_Drawing v = do {
     i \<leftarrow> field v ''id'' as_text;
     t \<leftarrow> field v ''time'' as_number;
     c \<leftarrow> field v ''color'' as_text;
     z \<leftarrow> field v ''size'' as_number;
     ps \<leftarrow> field v ''path'' (as_array as_DrawingPath);
     Some \<lparr> drawing_id = i, drawing_time = t, drawing_color = c, drawing_size = z,
            drawing_path = ps \<rparr> }"

definition as_Annotation :: "json \<Rightarrow> Annotation option" where
  "as_Annotation v = do {
     i \<leftarrow> field v ''id'' as_text;
     px \<leftarrow> field v ''x'' as_number;
     py \<leftarrow> field v ''y'' as_number;
     t \<leftarrow> field v ''time'' as_number;
     l \<leftarrow> field v ''text'' as_text;
     c \<leftarrow> field v ''color'' as_text;
     Some \<lparr> anno_id = i, anno_x = px, anno_y = py, anno_time = t, anno_text = l,
            anno_color = c \<rparr> }"

definition as_Clip :: "json \<Rightarrow> Clip option" where
  "as_Clip v = do {
     i \<leftarrow> field v ''id'' as_text;
     n \<leftarrow> field v ''name'' as_text;
     s \<leftarrow> field v ''startTime'' as_number;
     e \<leftarrow> field v ''endTime'' as_number;
     d \<leftarrow> field v ''duration'' as_number;
     sp \<leftarrow> field v ''speed'' as_number;
     zx \<leftarrow> field v ''zoomX'' as_number;
     zy \<leftarrow> field v ''zoomY'' as_number;
     Some \<lparr> clip_id = i, clip_name = n, startTime = s, endTime = e, clip_duration = d,
            speed = sp, zoomX = zx, zoomY = zy \<rparr> }"

text \<open>
  \<open>data.notes || ''\<close> and \<open>data.clips || []\<close>: the default stands in for a member that
  is missing or falsy.
\<close>

definition or_empty_string :: "json option \<Rightarrow> string option" where
  "or_empty_string m =
     (case m of
        None \<Rightarrow> Some []
      | Some v \<Rightarrow> if truthy_json v then as_text v else Some [])"

definition or_empty_array :: "(json \<Rightarrow> 'a option) \<Rightarrow> json option \<Rightarrow> 'a list option" where
  "or_empty_array f m =
     (case m of
        None \<Rightarrow> Some []
      | Some v \<Rightarrow> if truthy_json v then as_array f v else Some [])"

text \<open>\<open>if (data.primaryVideoFileName)\<close>: the name, when there is a truthy one.\<close>

definition truthy_name :: "json option \<Rightarrow> string option option" where
  "truthy_name m =
     (case m of
        None \<Rightarrow> Some None
      | Some v \<Rightarrow> if truthy_json v then map_option Some (as_text v) else Some None)"

section \<open>The application controller (\<open>App.tsx\<close>)\<close>

text \<open>
  The state of the component, with the mounted playback surface that \<open>playerRef\<close>
  reaches. Two fields are not variables of the program: \<open>alerts\<close> lists the messages
  shown by \<open>alert\<close>, in order, and \<open>timeouts\<close> counts the callbacks that \<open>playClip\<close>
  has scheduled and that have not run yet. A handler runs to its end before the next one
  starts. What the environment supplies (the user's reply to a prompt, a generated
  identifier, an object URL, the width of the window, the date) is an argument.
\<close>

record App_state =
  videoSrc :: "string option"
  primaryVideoFile :: "File option"
  isPlaying :: bool
  currentTime :: number
  duration :: number
  playbackSpeed :: number
  isSidebarOpen :: bool
  isSaving :: bool
  toolMode :: ToolMode
  currentColor :: string
  brushSize :: number
  "notes" :: string
  annotations :: "Annotation list"
  drawings :: "Drawing list"
  clips :: "Clip list"
  activeClipId :: "string option"
  playerRef :: VideoPlayer
  alerts :: "string list"
  timeouts :: nat

definition initial_App :: App_state where
  "initial_App =
     \<lparr> videoSrc = None, primaryVideoFile = None, isPlaying = False, currentTime = Fin 0,
       duration = Fin 0, playbackSpeed = Fin 1, isSidebarOpen = False, isSaving = False,
       toolMode = point_mode, currentColor = ''#ef4444'', brushSize = Fin 5, notes = [],
       annotations = [], drawings = [], clips = [], activeClipId = None,
       playerRef = initial_VideoPlayer, alerts = [], timeouts = 0 \<rparr>"

text \<open>\<open>if (activeClipId)\<close>: the identifier is neither \<open>null\<close> nor the empty string.\<close>

fun truthy_id :: "string option \<Rightarrow> bool" where
  "truthy_id None = False"
| "truthy_id (Some i) = (i \<noteq> [])"

definition handleVideoUpload :: "File option \<Rightarrow> string \<Rightarrow> App_state \<Rightarrow> App_state" where
  "handleVideoUpload file url s =
     (case file of
        None \<Rightarrow> s
      | Some f \<Rightarrow>
          s\<lparr> videoSrc := Some url, primaryVideoFile := Some f,
             annotations := [], drawings := [], clips := [], notes := [] \<rparr>)"

subsection \<open>Loading and saving an analysis\<close>

text \<open>The \<open>catch\<close> block of \<open>handleAnalysisUpload\<close>.\<close>

definition load_failed :: "App_state \<Rightarrow> App_state" where
  "load_failed s = s\<lparr> alerts := alerts s @ [''Failed to load analysis file.''] \<rparr>"

definition video_not_found :: "string \<Rightarrow> string" where
  "video_not_found name =
     ''Original video '' @ [CHR 0x22] @ name @ [CHR 0x22] @
     '' not found in archive. Please load the video separately.''"

text \<open>The video of the archive, once the data is stored.\<close>

definition load_video :: "JSZip \<Rightarrow> string \<Rightarrow> string \<Rightarrow> App_state \<Rightarrow> App_state" where
  "load_video z name url s =
     (case z name of
        None \<Rightarrow> s\<lparr> alerts := alerts s @ [video_not_found name] \<rparr>
      | Some entry \<Rightarrow>
          (case async_blob entry of
             Inl err \<Rightarrow> load_failed s
           | Inr videoBlob \<Rightarrow>
               s\<lparr> videoSrc := Some url,
                  primaryVideoFile :=
                    Some \<lparr> blob_type = blob_type videoBlob, blob_bytes = blob_bytes videoBlob,
                           file_name = name \<rparr> \<rparr>))"

text \<open>
  The four setters that store the parsed data. The result is \<open>None\<close> when a member is
  not of the type that \<open>AnalysisData\<close> gives it: the state then holds values that its
  type does not have.
\<close>

definition store_data :: "json \<Rightarrow> App_state \<Rightarrow> App_state option" where
  "store_data data s = do {
     n \<leftarrow> or_empty_string (member data ''notes'');
     ds \<leftarrow> or_empty_array as_Drawing (member data ''drawings'');
     ns \<leftarrow> or_empty_array as_Annotation (member data ''annotations'');
     cs \<leftarrow> or_empty_array as_Clip (member data ''clips'');
     Some (s\<lparr> notes := n, drawings := ds, annotations := ns, clips := cs \<rparr>) }"

text \<open>
  The body of \<open>if (jsonContent)\<close> after the parse. Reading \<open>data.notes\<close> of \<open>null\<close>
  throws, before anything is stored.
\<close>

definition restore :: "json \<Rightarrow> JSZip \<Rightarrow> string \<Rightarrow> App_state \<Rightarrow> App_state option" where
  "restore data z url s =
     (if data = JNull then Some (load_failed s)
      else do {
        s1 \<leftarrow> store_data data s;
        vn \<leftarrow> truthy_name (member data ''primaryVideoFileName'');
        Some (case vn of None \<Rightarrow> s1 | Some name \<Rightarrow> load_video z name url s1)
      })"

definition handleAnalysisUpload ::
    "archive option \<Rightarrow> string \<Rightarrow> App_state \<Rightarrow> App_state option" where
  "handleAnalysisUpload file url s =
     (case file of
        None \<Rightarrow> Some s
      | Some f \<Rightarrow>
          (case JSZip_loadAsync f of
             Inl err \<Rightarrow> Some (load_failed s)
           | Inr z \<Rightarrow>
               (case z ''analysis_data.json'' of
                  None \<Rightarrow> Some s
                | Some entry \<Rightarrow>
                    (case async_string entry of
                       Inl err \<Rightarrow> Some (load_failed s)
                     | Inr jsonContent \<Rightarrow>
                         if jsonContent = Empty then Some s
                         else (case JSON_parse jsonContent of
                                 Inl err \<Rightarrow> Some (load_failed s)
                               | Inr data \<Rightarrow> restore data z url s)))))"

text \<open>
  \<open>saveAnalysis\<close> up to \<open>generateAsync\<close>: the new state, and the name and the content
  of the file it hands to the share sheet or to the download. The date is the first ten
  characters of \<open>new Date().toISOString()\<close>.
\<close>

definition saveAnalysis :: "string \<Rightarrow> App_state \<Rightarrow> App_state \<times> (string \<times> archive) option" where
  "saveAnalysis today s =
     (case primaryVideoFile s of
        None \<Rightarrow> (s\<lparr> alerts := alerts s @ [''Please load a video first.''] \<rparr>, None)
      | Some f \<Rightarrow>
          let data = \<lparr> version = ''1.0'', data_notes = notes s, data_drawings = drawings s,
                       data_annotations = annotations s, data_clips = clips s,
                       primaryVideoFileName = Some (file_name f) \<rparr>;
              z = JSZip_file ''analysis_data.json'' (Encoded (JSON_stringify data)) Map.empty;
              z' = JSZip_file (file_name f) (blob_bytes f) z;
              fileName = ''BioMotion_'' @ today @ ''.zip''
          in (s\<lparr> isSaving := False \<rparr>, Some (fileName, Zip z')))"

subsection \<open>Annotations, drawings and clips\<close>

definition handleAddAnnotation ::
    "number \<Rightarrow> number \<Rightarrow> number \<Rightarrow> number \<Rightarrow> string option \<Rightarrow> string \<Rightarrow> string \<Rightarrow>
     App_state \<Rightarrow> App_state" where
  "handleAddAnnotation px py time innerWidth reply id1 id2 s =
     (let s1 = (if js_lt innerWidth (Fin 768)
                then s\<lparr> playerRef := pause (playerRef s), isPlaying := False \<rparr>
                else s)
      in case reply of
           None \<Rightarrow> s1
         | Some label \<Rightarrow>
             if label = [] then s1
             else
               let newAnnotation =
                     \<lparr> anno_id = id1, anno_x = px, anno_y = py, anno_time = time,
                       anno_text = label, anno_color = currentColor s \<rparr>;
                   s2 = s1\<lparr> annotations := annotations s @ [newAnnotation] \<rparr>;
                   clipDuration = Fin 2;
                   start = Math_max (Fin 0) (js_sub time (Fin (1 / 2)));
                   finish = Math_min (duration s) (js_add start clipDuration);
                   newClip =
                     \<lparr> clip_id = id2, clip_name = label, startTime = start, endTime = finish,
                       clip_duration = parseFloat_toFixed2 (js_sub finish start),
                       speed = Fin (1 / 2), zoomX = px, zoomY = py \<rparr>
               in s2\<lparr> clips := clips s @ [newClip] \<rparr>)"

definition handleAddDrawing :: "Drawing \<Rightarrow> App_state \<Rightarrow> App_state" where
  "handleAddDrawing drawing s = s\<lparr> drawings := drawings s @ [drawing] \<rparr>"

subsection \<open>Playback\<close>

definition stopClip :: "App_state \<Rightarrow> App_state" where
  "stopClip s =
     s\<lparr> activeClipId := None,
        playerRef := setMuted False (pause (playerRef s)),
        playbackSpeed := Fin 1 \<rparr>"

definition togglePlay :: "App_state \<Rightarrow> App_state" where
  "togglePlay s =
     (if truthy_id (activeClipId s) then stopClip s
      else if isPlaying s then s\<lparr> playerRef := pause (playerRef s), isPlaying := False \<rparr>
      else s\<lparr> playerRef := play (playerRef s), isPlaying := True \<rparr>)"

definition playClip :: "Clip \<Rightarrow> App_state \<Rightarrow> App_state" where
  "playClip clip s =
     (let s1 = (if truthy_id (activeClipId s) then stopClip s else s)
      in s1\<lparr> activeClipId := Some (clip_id clip),
             playerRef := seek (startTime clip) (setMuted True (pause (playerRef s1))),
             timeouts := timeouts s1 + 1 \<rparr>)"

text \<open>The callback that \<open>playClip\<close> schedules.\<close>

definition playClip_timeout :: "App_state \<Rightarrow> App_state" where
  "playClip_timeout s =
     (if timeouts s = 0 then s
      else s\<lparr> playerRef := play (playerRef s), timeouts := timeouts s - 1 \<rparr>)"

text \<open>\<open>clips.find(c => c.id === activeClipId)\<close>\<close>

definition activeClipData :: "App_state \<Rightarrow> Clip option" where
  "activeClipData s = find (\<lambda>c. Some (clip_id c) = activeClipId s) (clips s)"

text \<open>The effect that watches for the end of the clip.\<close>

definition monitorClipEnd :: "App_state \<Rightarrow> App_state" where
  "monitorClipEnd s =
     (if truthy_id (activeClipId s) then
        (case activeClipData s of
           None \<Rightarrow> s
         | Some clip \<Rightarrow>
             if js_le (endTime clip) (currentTime s)
             then s\<lparr> playerRef := play (seek (startTime clip) (pause (playerRef s))) \<rparr>
             else s)
      else s)"


record zoomConfig =
  zoom_active :: bool
  zoom_x :: number
  zoom_y :: number

definition zoomConfig :: "App_state \<Rightarrow> zoomConfig" where
  "zoomConfig s =
     (case activeClipData s of
        Some c \<Rightarrow> \<lparr> zoom_active = True, zoom_x = zoomX c, zoom_y = zoomY c \<rparr>
      | None \<Rightarrow> \<lparr> zoom_active = False, zoom_x = Fin (1 / 2), zoom_y = Fin (1 / 2) \<rparr>)"

definition clearAll :: "bool \<Rightarrow> App_state \<Rightarrow> App_state" where
  "clearAll confirmed s =
     (if confirmed
      then stopClip (s\<lparr> annotations := [], drawings := [], clips := [], notes := [] \<rparr>)
      else s)"

subsection \<open>The pointer events of the playback surface, with their callbacks\<close>

definition pointerDown ::
    "number \<Rightarrow> number \<Rightarrow> number \<Rightarrow> string option \<Rightarrow> string \<Rightarrow> string \<Rightarrow>
     App_state \<Rightarrow> App_state" where
  "pointerDown clientX clientY innerWidth reply id1 id2 s =
     (case handlePointerDown (toolMode s) clientX clientY (playerRef s) of
        (p, Some (onAddAnnotation px py t)) \<Rightarrow>
          handleAddAnnotation px py t innerWidth reply id1 id2 (s\<lparr> playerRef := p \<rparr>)
      | (p, _) \<Rightarrow> s\<lparr> playerRef := p \<rparr>)"

definition pointerMove :: "number \<Rightarrow> number \<Rightarrow> App_state \<Rightarrow> App_state" where
  "pointerMove clientX clientY s =
     s\<lparr> playerRef := fst (handlePointerMove (toolMode s) clientX clientY (playerRef s)) \<rparr>"

definition pointerUp :: "string \<Rightarrow> App_state \<Rightarrow> App_state" where
  "pointerUp now s =
     (case handlePointerUp (currentColor s) (brushSize s) now (playerRef s) of
        (p, Some (onAddDrawing d)) \<Rightarrow> handleAddDrawing d (s\<lparr> playerRef := p \<rparr>)
      | (p, _) \<Rightarrow> s\<lparr> playerRef := p \<rparr>)"

section \<open>The sidebar (\<open>Sidebar.tsx\<close>)\<close>

definition handleDeleteClip :: "string \<Rightarrow> App_state \<Rightarrow> App_state" where
  "handleDeleteClip clipId s = s\<lparr> clips := filter (\<lambda>c. clip_id c \<noteq> clipId) (clips s) \<rparr>"

definition handleDeleteAnnotation :: "string \<Rightarrow> App_state \<Rightarrow> App_state" where
  "handleDeleteAnnotation i s =
     s\<lparr> annotations := filter (\<lambda>a. anno_id a \<noteq> i) (annotations s) \<rparr>"

text \<open>\<open>activeClipId === clip.id\<close>: the row of the clip is drawn as the active one.\<close>

definition marked_active :: "App_state \<Rightarrow> Clip \<Rightarrow> bool" where
  "marked_active s c = (activeClipId s = Some (clip_id c))"

text \<open>The play button of a row.\<close>

definition clip_button :: "Clip \<Rightarrow> App_state \<Rightarrow> App_state" where
  "clip_button c s = (if marked_active s c then stopClip s else playClip c s)"

section \<open>The states of the application\<close>

inductive reachable :: "App_state \<Rightarrow> bool" where
  initial: "reachable initial_App"
| video_upload: "reachable s \<Longrightarrow> reachable (handleVideoUpload f url s)"
| analysis_upload:
    "reachable s \<Longrightarrow> handleAnalysisUpload f url s = Some s' \<Longrightarrow> reachable s'"
| save: "reachable s \<Longrightarrow> reachable (fst (saveAnalysis today s))"
| pointer_down: "reachable s \<Longrightarrow> reachable (pointerDown cx cy w reply id1 id2 s)"
| pointer_move: "reachable s \<Longrightarrow> reachable (pointerMove cx cy s)"
| pointer_up: "reachable s \<Longrightarrow> reachable (pointerUp now s)"
| toggle: "reachable s \<Longrightarrow> reachable (togglePlay s)"
| button: "reachable s \<Longrightarrow> c \<in> set (clips s) \<Longrightarrow> reachable (clip_button c s)"
| timeout: "reachable s \<Longrightarrow> reachable (playClip_timeout s)"
| effect: "reachable s \<Longrightarrow> reachable (monitorClipEnd s)"
| delete_clip: "reachable s \<Longrightarrow> reachable (handleDeleteClip i s)"
| delete_annotation: "reachable s \<Longrightarrow> reachable (handleDeleteAnnotation i s)"
| clear: "reachable s \<Longrightarrow> reachable (clearAll b s)"
| time_update: "reachable s \<Longrightarrow> reachable (s\<lparr> currentTime := t \<rparr>)"
| duration_change: "reachable s \<Longrightarrow> reachable (s\<lparr> duration := d \<rparr>)"
| controls:
    "reachable s \<Longrightarrow>
     reachable (s\<lparr> toolMode := m, currentColor := c, notes := n, isSidebarOpen := b \<rparr>)"
| elements:
    "reachable s \<Longrightarrow>
     reachable (s\<lparr> playerRef := (playerRef s)\<lparr> videoRef := v, containerRef := r \<rparr> \<rparr>)"

section \<open>Example inputs\<close>

text \<open>
  A mounted playback surface: the container is 100 by 40 pixels with its corner at
  \<open>(10, 80)\<close>, and the video stands at 3 seconds. On it, a stroke in progress: the pen
  went down at \<open>(35, 90)\<close> and moved to \<open>(60, 105)\<close>.
\<close>

definition example_rect :: DOMRect where
  "example_rect =
     \<lparr> rect_left = Fin 10, rect_top = Fin 80, rect_width = Fin 100, rect_height = Fin 40 \<rparr>"

definition example_video :: HTMLVideoElement where
  "example_video = \<lparr> v_currentTime = Fin 3, v_paused = True, v_muted = False \<rparr>"

definition mounted_VideoPlayer :: VideoPlayer where
  "mounted_VideoPlayer =
     initial_VideoPlayer\<lparr> videoRef := Some example_video, containerRef := Some example_rect,
                           calls := [] \<rparr>"

definition example_stroke :: VideoPlayer where
  "example_stroke =
     fst (handlePointerMove pen_mode (Fin 60) (Fin 105)
       (fst (handlePointerDown pen_mode (Fin 35) (Fin 90) mounted_VideoPlayer)))"

text \<open>
  A video file, and two archives made by hand. The first holds two clips with the same
  identifier and no video. The second names a video whose entry is damaged.
\<close>

definition example_file :: File where
  "example_file =
     \<lparr> blob_type = ''video/mp4'', blob_bytes = Binary [0, 0, 0, 24], file_name = ''jump.mp4'' \<rparr>"

definition twin_clip :: "string \<Rightarrow> Clip" where
  "twin_clip n =
     \<lparr> clip_id = ''a'', clip_name = n, startTime = Fin 0, endTime = Fin 2,
       clip_duration = Fin 2, speed = Fin (1 / 2), zoomX = Fin (1 / 2), zoomY = Fin (1 / 2) \<rparr>"

definition twin_archive :: archive where
  "twin_archive =
     Zip [''analysis_data.json'' \<mapsto> Stored (Encoded (JSON_stringify
       \<lparr> version = ''1.0'', data_notes = [], data_drawings = [], data_annotations = [],
         data_clips = [twin_clip ''first'', twin_clip ''second''],
         primaryVideoFileName = None \<rparr>))]"

definition twin_state :: App_state where
  "twin_state =
     clip_button (twin_clip ''first'')
       (initial_App\<lparr> clips := [twin_clip ''first'', twin_clip ''second''] \<rparr>)"

definition damaged_archive :: archive where
  "damaged_archive =
     Zip [''analysis_data.json'' \<mapsto> Stored (Encoded (JSON_stringify
            \<lparr> version = ''1.0'', data_notes = ''knee valgus'', data_drawings = [],
              data_annotations = [], data_clips = [twin_clip ''first''],
              primaryVideoFileName = Some ''jump.mp4'' \<rparr>)),
          ''jump.mp4'' \<mapsto> Damaged]"

text \<open>
  Sessions with a video loaded and the playback surface mounted. In the first the video
  lasts ten seconds and a point was set at \<open>(35, 90)\<close>. In the second the same point was
  set while the duration of the video was \<open>NaN\<close>. In the third the video file has the name
  of the archive's metadata entry, and a note was written.
\<close>

definition loaded_App :: "File \<Rightarrow> App_state" where
  "loaded_App f =
     (let s = handleVideoUpload (Some f) ''blob:0'' initial_App
      in s\<lparr> playerRef :=
             (playerRef s)\<lparr> videoRef := Some example_video, containerRef := Some example_rect \<rparr> \<rparr>)"

definition example_session :: App_state where
  "example_session =
     pointerDown (Fin 35) (Fin 90) (Fin 1024) (Some ''Point 1'') ''a1'' ''c1''
       ((loaded_App example_file)\<lparr> duration := Fin 10 \<rparr>)"





section \<open>Properties of the rounding\<close>

text \<open>
  What the proofs below use of the rounding: \<open>fl\<close> keeps every double, keeps the sign and
  the order against a double, and in the normal range changes a number by at most
  \<open>2^-53\<close> of its size.
\<close>

subsection \<open>Powers of two and the binary exponent\<close>

lemma powi_nat: "0 \<le> k \<Longrightarrow> (2::real) powi k = 2 ^ nat k"
  by (simp add: power_int_def)

lemma powi_pos [simp]: "0 < (2::real) powi k"
  by (simp add: zero_less_power_int)

lemma powi_mono: "j \<le> k \<Longrightarrow> (2::real) powi j \<le> 2 powi k"
  by (rule power_int_increasing) simp_all

lemma powi_strict_mono: "j < k \<Longrightarrow> (2::real) powi j < 2 powi k"
  by (rule power_int_strict_increasing) simp_all

lemma powi_le_iff: "(2::real) powi j \<le> 2 powi k \<longleftrightarrow> j \<le> k"
  using powi_mono [of j k] powi_strict_mono [of k j] by (auto simp: not_le [symmetric])

lemma powi_less_iff: "(2::real) powi j < 2 powi k \<longleftrightarrow> j < k"
  using powi_mono [of k j] powi_strict_mono [of j k] by (auto simp: not_less [symmetric])

lemma powi_add: "(2::real) powi (j + k) = 2 powi j * 2 powi k"
  by (simp add: power_int_add)

lemma powi_diff: "(2::real) powi (j - k) = 2 powi j / 2 powi k"
  by (simp add: power_int_diff)

lemma ilog2_bounds:
  assumes "0 < x"
  shows "2 powi ilog2 x \<le> x" and "x < 2 powi (ilog2 x + 1)"
proof -
  have "2 powi ilog2 x \<le> x \<and> x < 2 powi (ilog2 x + 1)"
  proof (cases "1 \<le> x")
    case True
    define n where "n = \<lfloor>x\<rfloor>"
    have n: "1 \<le> n" using True by (simp add: n_def le_floor_iff)
    then have b: "2 ^ nat (bitlen n - 1) \<le> n" "n < 2 ^ nat (bitlen n)"
      using bitlen_bounds [of n] by simp_all
    have b1: "1 \<le> bitlen n" using n by (simp add: bitlen_alt_def)
    have i: "ilog2 x = bitlen n - 1" using True by (simp add: ilog2_def n_def)
    have "(2::real) powi (bitlen n - 1) = of_int (2 ^ nat (bitlen n - 1))"
      using b1 by (simp add: powi_nat)
    also have "\<dots> \<le> of_int n" using b(1) by (simp only: of_int_le_iff)
    also have "\<dots> \<le> x" by (simp add: n_def)
    finally have lo: "2 powi ilog2 x \<le> x" using i by simp
    have "x < of_int n + 1" by (simp add: n_def)
    also have "\<dots> = of_int (n + 1)" by simp
    also have "\<dots> \<le> of_int (2 ^ nat (bitlen n))"
      using b(2) by (simp only: of_int_le_iff)
    also have "\<dots> = 2 powi (bitlen n)" using b1 by (simp add: powi_nat)
    finally have hi: "x < 2 powi (ilog2 x + 1)" using i by simp
    show ?thesis using lo hi ..
  next
    case False
    define N where "N = \<lceil>1 / x\<rceil>"
    have inv: "1 < 1 / x" using False assms by simp
    then have N: "2 \<le> N" unfolding N_def by linarith
    then have b: "2 ^ nat (bitlen (N - 1) - 1) \<le> N - 1" "N - 1 < 2 ^ nat (bitlen (N - 1))"
      using bitlen_bounds [of "N - 1"] by simp_all
    have b1: "1 \<le> bitlen (N - 1)" using N by (simp add: bitlen_alt_def)
    have i: "ilog2 x = - bitlen (N - 1)" using False by (simp add: ilog2_def N_def)
    have up: "1 / x \<le> of_int N" by (simp add: N_def)
    have dn: "of_int (N - 1) < 1 / x" unfolding N_def by linarith
    have "N \<le> 2 ^ nat (bitlen (N - 1))" using b(2) by simp
    then have "of_int N \<le> (of_int (2 ^ nat (bitlen (N - 1))) :: real)"
      by (simp only: of_int_le_iff)
    also have "\<dots> = 2 powi bitlen (N - 1)" using b1 by (simp add: powi_nat)
    finally have "1 / x \<le> 2 powi bitlen (N - 1)" using up by simp
    then have "1 \<le> 2 powi bitlen (N - 1) * x" using assms by (simp add: field_simps)
    then have lo: "2 powi ilog2 x \<le> x"
      using i by (simp add: power_int_minus field_simps)
    have "(2::real) powi (bitlen (N - 1) - 1) = of_int (2 ^ nat (bitlen (N - 1) - 1))"
      using b1 by (simp add: powi_nat)
    also have "\<dots> \<le> of_int (N - 1)" using b(1) by (simp only: of_int_le_iff)
    finally have "2 powi (bitlen (N - 1) - 1) < 1 / x" using dn by simp
    then have "x * 2 powi (bitlen (N - 1) - 1) < 1" using assms by (simp add: field_simps)
    then have "x < 1 / 2 powi (bitlen (N - 1) - 1)" by (simp add: pos_less_divide_eq)
    also have "\<dots> = 2 powi (- (bitlen (N - 1) - 1))" by (simp only: power_int_minus_divide)
    also have "- (bitlen (N - 1) - 1) = ilog2 x + 1" using i by simp
    finally have hi: "x < 2 powi (ilog2 x + 1)" .
    show ?thesis using lo hi ..
  qed
  then show "2 powi ilog2 x \<le> x" and "x < 2 powi (ilog2 x + 1)" by simp_all
qed

lemma ilog2_eqI:
  assumes "2 powi e \<le> x" and "x < 2 powi (e + 1)"
  shows "ilog2 x = e"
proof -
  have x: "0 < x" using assms(1) powi_pos [of e] by linarith
  have "2 powi ilog2 x < (2::real) powi (e + 1)"
    using ilog2_bounds(1) [OF x] assms(2) by linarith
  then have 1: "ilog2 x < e + 1" by (simp only: powi_less_iff)
  have "2 powi e < (2::real) powi (ilog2 x + 1)"
    using ilog2_bounds(2) [OF x] assms(1) by linarith
  then have 2: "e < ilog2 x + 1" by (simp only: powi_less_iff)
  show ?thesis using 1 2 by simp
qed

lemma ilog2_mono:
  assumes "0 < x" and "x \<le> y"
  shows "ilog2 x \<le> ilog2 y"
proof -
  have y: "0 < y" using assms by simp
  have "2 powi ilog2 x < (2::real) powi (ilog2 y + 1)"
    using ilog2_bounds(1) [OF assms(1)] ilog2_bounds(2) [OF y] assms(2) by linarith
  then have "ilog2 x < ilog2 y + 1" by (simp only: powi_less_iff)
  then show ?thesis by simp
qed

lemma round_even_of_int [simp]: "round_even (of_int n) = n"
  by (simp add: round_even_def)

lemma round_even_err: "\<bar>of_int (round_even r) - r\<bar> \<le> 1 / 2"
  unfolding round_even_def Let_def by (auto; linarith)

lemma round_even_le: "r \<le> of_int N \<Longrightarrow> round_even r \<le> N"
  unfolding round_even_def Let_def
  by (auto simp: floor_le_iff; linarith)

lemma round_even_ge: "of_int N \<le> r \<Longrightarrow> N \<le> round_even r"
  unfolding round_even_def Let_def
  by (auto simp: le_floor_iff; linarith)

lemma round_even_minus: "round_even (- r) = - round_even r"
proof (cases "r = of_int \<lfloor>r\<rfloor>")
  case True
  then obtain n :: int where "r = of_int n" ..
  then have "round_even r = n" "round_even (- r) = - n"
    using round_even_of_int [of "- n"] by simp_all
  then show ?thesis by simp
next
  case False
  then have "of_int \<lfloor>r\<rfloor> < r" using of_int_floor_le [of r] by linarith
  then have "\<lfloor>- r\<rfloor> = - \<lfloor>r\<rfloor> - 1" by linarith
  then show ?thesis unfolding round_even_def Let_def by (auto; linarith)
qed

lemma fl_0 [simp]: "fl 0 = 0"
  by (simp add: fl_def)

lemma grid_minus [simp]: "grid (- x) = grid x"
  by (simp add: grid_def)

lemma fl_minus: "fl (- x) = - fl x"
  by (simp add: fl_def round_even_minus)

lemma grid_ge: "- 1074 \<le> grid x"
  by (simp add: grid_def)

lemma grid_mono:
  assumes "x \<noteq> 0" and "\<bar>x\<bar> \<le> \<bar>y\<bar>"
  shows "grid x \<le> grid y"
  using ilog2_mono [of "\<bar>x\<bar>" "\<bar>y\<bar>"] assms by (simp add: grid_def)

lemma fl_nonneg: "0 \<le> x \<Longrightarrow> 0 \<le> fl x"
  using round_even_ge [of 0 "x / 2 powi grid x"] by (simp add: fl_def)

lemma fl_nonpos: "x \<le> 0 \<Longrightarrow> fl x \<le> 0"
  using fl_nonneg [of "- x"] by (simp add: fl_minus)

lemma fl_err_grid: "\<bar>fl x - x\<bar> \<le> 2 powi grid x / 2"
proof (cases "x = 0")
  case True
  then show ?thesis by simp
next
  case False
  define g where "g = (2::real) powi grid x"
  have g: "0 < g" by (simp add: g_def)
  have "fl x - x = (of_int (round_even (x / g)) - x / g) * g"
    using False g by (simp add: fl_def g_def field_simps)
  then have "\<bar>fl x - x\<bar> = \<bar>of_int (round_even (x / g)) - x / g\<bar> * g"
    using g by (simp add: abs_mult)
  also have "\<dots> \<le> 1 / 2 * g"
    using round_even_err [of "x / g"] g by (intro mult_right_mono) simp_all
  finally show ?thesis by (simp add: g_def)
qed

lemma ilog2_ge:
  assumes "2 powi e \<le> x"
  shows "e \<le> ilog2 x"
proof -
  have x: "0 < x" using assms powi_pos [of e] by linarith
  have "2 powi e < (2::real) powi (ilog2 x + 1)"
    using ilog2_bounds(2) [OF x] assms by linarith
  then have "e < ilog2 x + 1" by (simp only: powi_less_iff)
  then show ?thesis by simp
qed

lemma ilog2_less:
  assumes "0 < x" and "x < 2 powi e"
  shows "ilog2 x < e"
proof -
  have "2 powi ilog2 x < (2::real) powi e"
    using ilog2_bounds(1) [OF assms(1)] assms(2) by linarith
  then show ?thesis by (simp only: powi_less_iff)
qed

lemma fl_err:
  assumes "2 powi (- 1022) \<le> \<bar>x\<bar>"
  shows "\<bar>fl x - x\<bar> \<le> \<bar>x\<bar> / 2 ^ 53"
proof -
  have x: "0 < \<bar>x\<bar>" using assms powi_pos [of "- 1022"] by linarith
  have e: "- 1022 \<le> ilog2 \<bar>x\<bar>" using assms by (rule ilog2_ge)
  then have "grid x = ilog2 \<bar>x\<bar> - 53 + 1" by (simp add: grid_def)
  then have "(2::real) powi grid x / 2 = 2 powi ilog2 \<bar>x\<bar> / 2 ^ 53"
    by (simp add: powi_diff powi_add)
  also have "\<dots> \<le> \<bar>x\<bar> / 2 ^ 53"
    using ilog2_bounds(1) [OF x] by (simp add: divide_right_mono)
  finally show ?thesis using fl_err_grid [of x] by linarith
qed

lemma fl_multiple:
  assumes "grid x \<le> k" and "x = of_int m * 2 powi k"
  shows "fl x = x"
proof (cases "x = 0")
  case True
  then show ?thesis by simp
next
  case False
  define G :: real where "G = 2 powi grid x"
  have G: "0 < G" by (simp add: G_def)
  have "(2::real) powi k = 2 powi (k - grid x) * G"
    by (simp add: powi_add [symmetric] G_def)
  also have "\<dots> = of_int (2 ^ nat (k - grid x)) * G"
    using assms(1) by (simp add: powi_nat)
  finally have "x = of_int (m * 2 ^ nat (k - grid x)) * G"
    using assms(2) by simp
  then have "x / G = of_int (m * 2 ^ nat (k - grid x))"
    using G by (simp add: divide_eq_eq)
  then have "of_int (round_even (x / G)) = x / G"
    by (simp only: round_even_of_int)
  then show ?thesis using False G by (simp add: fl_def G_def [symmetric])
qed

lemma fl_rep:
  assumes "\<bar>m\<bar> < 2 ^ 53" and "- 1074 \<le> k"
  shows "fl (of_int m * 2 powi k) = of_int m * 2 powi k"
proof (cases "m = 0")
  case True
  then show ?thesis by simp
next
  case False
  define x :: real where "x = of_int m * 2 powi k"
  have x: "0 < \<bar>x\<bar>" using False by (simp add: x_def)
  have "\<bar>x\<bar> = of_int \<bar>m\<bar> * 2 powi k" by (simp add: x_def abs_mult)
  also have "\<dots> < of_int (2 ^ 53) * 2 powi k"
    using assms(1) by (intro mult_strict_right_mono) (simp_all only: of_int_less_iff powi_pos)
  also have "\<dots> = 2 powi (k + 53)" by (simp add: powi_add)
  finally have "ilog2 \<bar>x\<bar> < k + 53" using x by (intro ilog2_less)
  then have "grid x \<le> k" using assms(2) by (simp add: grid_def)
  then show ?thesis using fl_multiple [of x k m] by (simp add: x_def)
qed

lemma fl_grid:
  obtains n where "fl x = of_int n * 2 powi grid x" and "\<bar>n\<bar> \<le> 2 ^ 53"
proof (cases "x = 0")
  case True
  then have "fl x = of_int 0 * 2 powi grid x" by simp
  then show ?thesis using that [of 0] by simp
next
  case False
  define g where "g = grid x"
  have x: "0 < \<bar>x\<bar>" using False by simp
  have "ilog2 \<bar>x\<bar> + 1 \<le> g + 53" by (simp add: g_def grid_def)
  then have "(2::real) powi (ilog2 \<bar>x\<bar> + 1) \<le> 2 powi (g + 53)" by (rule powi_mono)
  then have "\<bar>x\<bar> < 2 powi (g + 53)" using ilog2_bounds(2) [OF x] by linarith
  then have "\<bar>x\<bar> / 2 powi g < 2 ^ 53" by (simp add: powi_add field_simps)
  then have "\<bar>x / 2 powi g\<bar> < 2 ^ 53" by (simp add: abs_divide)
  then have b: "x / 2 powi g \<le> 2 ^ 53" "- (2 ^ 53) \<le> x / 2 powi g"
    by linarith+
  have "round_even (x / 2 powi g) \<le> 2 ^ 53"
    using b(1) by (intro round_even_le) simp
  moreover have "- (2 ^ 53) \<le> round_even (x / 2 powi g)"
    using b(2) by (intro round_even_ge) simp
  ultimately have "round_even (x / 2 powi g) \<le> 2 ^ 53" "- (2 ^ 53) \<le> round_even (x / 2 powi g)"
    by simp_all
  then have "\<bar>round_even (x / 2 powi g)\<bar> \<le> 2 ^ 53" by simp
  moreover have "fl x = of_int (round_even (x / 2 powi g)) * 2 powi g"
    using False by (simp add: fl_def g_def)
  ultimately show ?thesis using that unfolding g_def by blast
qed

lemma fl_fl [simp]: "fl (fl x) = fl x"
proof -
  obtain n where n: "fl x = of_int n * 2 powi grid x" "\<bar>n\<bar> \<le> 2 ^ 53"
    by (rule fl_grid)
  show ?thesis
  proof (cases "\<bar>n\<bar> < 2 ^ 53")
    case True
    then show ?thesis using fl_rep [of n "grid x"] n(1) grid_ge [of x] by simp
  next
    case False
    then have "n = 2 ^ 53 \<or> n = - (2 ^ 53)" using n(2) by linarith
    then have "fl x = of_int 1 * 2 powi (grid x + 53) \<or> fl x = of_int (- 1) * 2 powi (grid x + 53)"
      using n(1) by (auto simp: powi_add)
    then show ?thesis
      using fl_rep [of 1 "grid x + 53"] fl_rep [of "- 1" "grid x + 53"] grid_ge [of x]
      by auto
  qed
qed

lemma fl_le:
  assumes "0 < x" and "x \<le> y" and "fl y = y"
  shows "fl x \<le> y"
proof -
  obtain n where n: "fl y = of_int n * 2 powi grid y" by (rule fl_grid)
  have g: "grid x \<le> grid y" using assms(1,2) by (intro grid_mono) simp_all
  have "(2::real) powi grid y = 2 powi (grid y - grid x) * 2 powi grid x"
    by (simp add: powi_add [symmetric])
  also have "\<dots> = of_int (2 ^ nat (grid y - grid x)) * 2 powi grid x"
    using g by (simp add: powi_nat)
  finally have "y = of_int (n * 2 ^ nat (grid y - grid x)) * 2 powi grid x"
    using n assms(3) by simp
  then obtain M :: int where y: "y = of_int M * 2 powi grid x" ..
  define G :: real where "G = 2 powi grid x"
  have G: "0 < G" by (simp add: G_def)
  have "x / G \<le> of_int M"
    using assms(2) y G by (simp add: G_def [symmetric] pos_divide_le_eq)
  then have "round_even (x / G) \<le> M" by (rule round_even_le)
  then have "(of_int (round_even (x / G)) :: real) \<le> of_int M" by (simp only: of_int_le_iff)
  then have "of_int (round_even (x / G)) * G \<le> of_int M * G"
    using G by (simp only: mult_le_cancel_right_pos)
  moreover have "fl x = of_int (round_even (x / G)) * G"
    using assms(1) by (simp add: fl_def G_def)
  ultimately show ?thesis using y by (simp add: G_def)
qed

lemma fl_ge_pow:
  assumes "0 < x" and "- 1022 \<le> ilog2 x"
  shows "2 powi ilog2 x \<le> fl x"
proof -
  define G :: real where "G = 2 powi grid x"
  have G: "0 < G" by (simp add: G_def)
  have g: "grid x = ilog2 x - 52" using assms by (simp add: grid_def)
  have p: "(2::real) powi ilog2 x = of_int (2 ^ 52) * G"
    by (simp add: g powi_diff G_def)
  then have "of_int (2 ^ 52) * G \<le> x"
    using ilog2_bounds(1) [OF assms(1)] by simp
  then have "of_int (2 ^ 52) \<le> x / G"
    using G by (simp only: pos_le_divide_eq)
  then have "2 ^ 52 \<le> round_even (x / G)" by (rule round_even_ge)
  then have "(of_int (2 ^ 52) :: real) \<le> of_int (round_even (x / G))"
    by (simp only: of_int_le_iff)
  then have "of_int (2 ^ 52) * G \<le> of_int (round_even (x / G)) * G"
    using G by (simp only: mult_le_cancel_right_pos)
  moreover have "fl x = of_int (round_even (x / G)) * G"
    using assms(1) by (simp add: fl_def G_def)
  ultimately show ?thesis using p by simp
qed

lemma fl_ge:
  assumes "0 < y" and "y \<le> x" and "fl y = y"
  shows "y \<le> fl x"
proof -
  have x: "0 < x" using assms by simp
  have g: "grid y \<le> grid x" using assms(1,2) by (intro grid_mono) simp_all
  show ?thesis
  proof (cases "grid y = grid x")
    case True
    define G :: real where "G = 2 powi grid x"
    have G: "0 < G" by (simp add: G_def)
    obtain n where "fl y = of_int n * 2 powi grid y" by (rule fl_grid)
    then have y: "y = of_int n * G" using assms(3) True by (simp add: G_def)
    then have "of_int n * G \<le> x" using assms(2) by simp
    then have "of_int n \<le> x / G" using G by (simp only: pos_le_divide_eq)
    then have "n \<le> round_even (x / G)" by (rule round_even_ge)
    then have "(of_int n :: real) \<le> of_int (round_even (x / G))"
      by (simp only: of_int_le_iff)
    then have "of_int n * G \<le> of_int (round_even (x / G)) * G"
      using G by (simp only: mult_le_cancel_right_pos)
    moreover have "fl x = of_int (round_even (x / G)) * G"
      using x by (simp add: fl_def G_def)
    ultimately show ?thesis using y by simp
  next
    case False
    then have "grid y < grid x" using g by simp
    then have e: "- 1022 \<le> ilog2 x" "ilog2 y < ilog2 x"
      using assms(1) x by (simp_all add: grid_def max_def split: if_splits)
    then have "ilog2 y + 1 \<le> ilog2 x" by simp
    then have "(2::real) powi (ilog2 y + 1) \<le> 2 powi ilog2 x" by (rule powi_mono)
    then show ?thesis
      using ilog2_bounds(2) [OF assms(1)] fl_ge_pow [OF x e(1)] by linarith
  qed
qed

subsection \<open>Doubles and the results of the operators\<close>

lemma to_number_fl: "\<bar>fl x\<bar> < 2 ^ 1024 \<Longrightarrow> to_number x = Fin (fl x)"
  by (auto simp: to_number_def Let_def)

lemma to_number_double: "is_double x \<Longrightarrow> to_number x = Fin x"
  by (simp add: is_double_def to_number_fl)

lemma is_double_fl: "\<bar>fl x\<bar> < 2 ^ 1024 \<Longrightarrow> is_double (fl x)"
  by (simp add: is_double_def)

lemma fl_int: "\<bar>m\<bar> < 2 ^ 53 \<Longrightarrow> fl (of_int m) = of_int m"
  using fl_rep [of m 0] by simp

lemma fl_pow2: "- 1074 \<le> k \<Longrightarrow> fl (2 powi k) = 2 powi k"
  using fl_rep [of 1 k] by simp

text \<open>The definitions that compute a rounding on given numbers.\<close>

lemmas double_eval =
  to_number_def fl_def grid_def ilog2_def round_even_def compute_bitlen is_double_def

text \<open>A rounding in the normal range changes a number by a factor within \<open>2^-53\<close> of one.\<close>

lemma fl_relative:
  assumes "1 / 2 ^ 1022 \<le> \<bar>x\<bar>"
  obtains d where "fl x = x * (1 + d)" and "\<bar>d\<bar> \<le> 1 / 2 ^ 53"
proof -
  have x: "x \<noteq> 0" using assms by auto
  have "2 powi (- 1022) \<le> \<bar>x\<bar>" using assms by (simp add: power_int_minus_divide)
  then have "\<bar>fl x - x\<bar> \<le> \<bar>x\<bar> / 2 ^ 53" by (rule fl_err)
  then have "\<bar>fl x - x\<bar> / \<bar>x\<bar> \<le> 1 / 2 ^ 53"
    using x by (simp add: field_simps)
  then have "\<bar>(fl x - x) / x\<bar> \<le> 1 / 2 ^ 53" by (simp only: abs_divide)
  moreover have "fl x = x * (1 + (fl x - x) / x)" using x by (simp add: field_simps)
  ultimately show ?thesis using that by blast
qed

lemma round_step:
  assumes "1 / 2 ^ 1010 \<le> \<bar>x\<bar>" and "\<bar>x\<bar> \<le> 2 ^ 1010"
  obtains d where "to_number x = Fin (x * (1 + d))" and "\<bar>d\<bar> \<le> 1 / 2 ^ 53"
    and "\<bar>x\<bar> / 2 \<le> \<bar>x * (1 + d)\<bar>" and "\<bar>x * (1 + d)\<bar> \<le> 2 * \<bar>x\<bar>"
proof -
  have "(1::real) / 2 ^ 1022 \<le> 1 / 2 ^ 1010" by simp
  then have "1 / 2 ^ 1022 \<le> \<bar>x\<bar>" using assms(1) by linarith
  then obtain d where d: "fl x = x * (1 + d)" "\<bar>d\<bar> \<le> 1 / 2 ^ 53" by (rule fl_relative)
  have "\<bar>d\<bar> \<le> 1 / 2" using d(2) by simp
  then have m: "1 / 2 \<le> \<bar>1 + d\<bar>" "\<bar>1 + d\<bar> \<le> 2" by linarith+
  have lo: "\<bar>x\<bar> / 2 \<le> \<bar>x * (1 + d)\<bar>"
    using mult_left_mono [OF m(1), of "\<bar>x\<bar>"] by (simp add: abs_mult)
  have hi: "\<bar>x * (1 + d)\<bar> \<le> 2 * \<bar>x\<bar>"
    using mult_left_mono [OF m(2), of "\<bar>x\<bar>"] by (simp add: abs_mult)
  have "2 * \<bar>x\<bar> \<le> 2 * 2 ^ 1010" using assms(2) by simp
  also have "\<dots> < (2::real) ^ 1024" by simp
  finally have "\<bar>fl x\<bar> < 2 ^ 1024" using hi d(1) by simp
  then have "to_number x = Fin (x * (1 + d))" using d(1) by (simp add: to_number_fl)
  then show ?thesis using that d(2) lo hi by blast
qed

lemma relative_product:
  fixes a b :: real
  assumes "\<bar>a\<bar> \<le> p" and "\<bar>b\<bar> \<le> q"
  shows "\<bar>(1 + a) * (1 + b) - 1\<bar> \<le> p + q + p * q"
proof -
  have "\<bar>a * b\<bar> \<le> p * q"
    using assms by (simp add: abs_mult mult_mono)
  moreover have "(1 + a) * (1 + b) - 1 = a + b + a * b" by (simp add: algebra_simps)
  ultimately show ?thesis using assms by linarith
qed

text \<open>The largest double, and roundings that stay within the doubles.\<close>

lemma double_max:
  assumes "is_double a" and "0 \<le> a"
  shows "a \<le> 2 ^ 1024 - 2 ^ 971"
proof (cases "a = 0")
  case True
  then show ?thesis by simp
next
  case False
  then have a: "0 < a" "\<bar>a\<bar> = a" using assms(2) by simp_all
  obtain n where n: "fl a = of_int n * 2 powi grid a" "\<bar>n\<bar> \<le> 2 ^ 53" by (rule fl_grid)
  then have an: "a = of_int n * 2 powi grid a" using assms(1) by (simp add: is_double_def)
  have "a < 2 powi 1024" using assms(1) a(2) by (simp add: is_double_def powi_nat)
  then have "ilog2 a < 1024" using a(1) by (intro ilog2_less)
  then have g: "grid a \<le> 971" using a(2) by (simp add: grid_def)
  show ?thesis
  proof (cases "grid a = 971")
    case True
    have "of_int n * 2 powi 971 < (of_int (2 ^ 53) :: real) * 2 powi 971"
      using an True \<open>a < 2 powi 1024\<close> by (simp add: powi_nat)
    then have "(of_int n :: real) < of_int (2 ^ 53)"
      by (simp only: mult_less_cancel_right_pos powi_pos)
    then have "n < 2 ^ 53" by (simp only: of_int_less_iff)
    then have "n \<le> 2 ^ 53 - 1" by simp
    then have "(of_int n :: real) \<le> of_int (2 ^ 53 - 1)" by (simp only: of_int_le_iff)
    then have "of_int n * 2 powi 971 \<le> (of_int (2 ^ 53 - 1) :: real) * 2 powi 971"
      by (simp only: mult_le_cancel_right_pos powi_pos)
    then show ?thesis using an True by (simp add: powi_nat)
  next
    case False
    then have "grid a \<le> 970" using g by simp
    then have "(2::real) powi grid a \<le> 2 powi 970" by (rule powi_mono)
    moreover have "(of_int n :: real) \<le> of_int (2 ^ 53)"
      using n(2) by (simp only: of_int_le_iff)
    ultimately have "of_int n * 2 powi grid a \<le> (of_int (2 ^ 53) :: real) * 2 powi 970"
      by (intro mult_mono) simp_all
    then show ?thesis using an by (simp add: powi_nat)
  qed
qed

lemma fl_add2:
  assumes "is_double a" and "0 \<le> a"
  shows "a \<le> fl (a + 2)" and "fl (a + 2) < 2 ^ 1024"
proof -
  show "a \<le> fl (a + 2)"
  proof (cases "a = 0")
    case True
    then show ?thesis using fl_nonneg [of 2] by simp
  next
    case False
    then show ?thesis using assms by (intro fl_ge) (simp_all add: is_double_def)
  qed
  define x where "x = a + 2"
  have x: "0 < x" "x \<le> 2 ^ 1024 - 2 ^ 971 + 2"
    using assms(2) double_max [OF assms] by (simp_all add: x_def)
  have "fl x < 2 ^ 1024"
  proof (cases "x < 2 powi 1023")
    case True
    then have "fl x \<le> 2 powi 1023" using x(1) fl_pow2 [of 1023] by (intro fl_le) simp_all
    then show ?thesis by (simp add: powi_nat)
  next
    case False
    then have "2 powi 1023 \<le> x" "x < 2 powi (1023 + 1)" using x(2) by (simp_all add: powi_nat)
    then have "ilog2 x = 1023" by (rule ilog2_eqI)
    then have g: "grid x = 971" using x(1) by (simp add: grid_def)
    define R where "R = round_even (x / 2 powi 971)"
    have "x / 2 powi 971 \<le> (2 ^ 1024 - 2 ^ 971 + 2) / 2 powi 971"
      using x(2) by (intro divide_right_mono) simp_all
    moreover have "(2 ^ 1024 - 2 ^ 971 + 2) / 2 powi 971 + 1 / 2 < (2 ^ 53 :: real)"
      by (simp add: powi_nat)
    ultimately have "x / 2 powi 971 + 1 / 2 < 2 ^ 53" by linarith
    then have "of_int R < (2 ^ 53 :: real)"
      using round_even_err [of "x / 2 powi 971"] unfolding R_def by linarith
    then have "of_int R * 2 powi 971 < (2 ^ 53 :: real) * 2 powi 971"
      by (simp only: mult_less_cancel_right_pos powi_pos)
    moreover have "fl x = of_int R * 2 powi 971"
      using x(1) by (simp add: fl_def g R_def)
    ultimately show ?thesis by (simp add: powi_nat)
  qed
  then show "fl (a + 2) < 2 ^ 1024" by (simp add: x_def)
qed

lemma fl_sub_half:
  assumes "is_double t" and "0 \<le> t"
  shows "- (1 / 2) \<le> fl (t - 1 / 2)" and "fl (t - 1 / 2) \<le> t"
proof -
  show "- (1 / 2) \<le> fl (t - 1 / 2)"
  proof (cases "0 \<le> t - 1 / 2")
    case True
    then show ?thesis using fl_nonneg [of "t - 1 / 2"] by simp
  next
    case False
    have "fl (1 / 2) = 1 / 2" using fl_pow2 [of "- 1"] by (simp add: power_int_minus)
    then have "fl (1 / 2 - t) \<le> 1 / 2" using False assms(2) by (intro fl_le) simp_all
    then show ?thesis using fl_minus [of "1 / 2 - t"] by simp
  qed
  show "fl (t - 1 / 2) \<le> t"
  proof (cases "0 < t - 1 / 2")
    case True
    then show ?thesis using assms(1) by (intro fl_le) (simp_all add: is_double_def)
  next
    case False
    then show ?thesis using fl_nonpos [of "t - 1 / 2"] assms(2) by simp
  qed
qed

lemma double_whole:
  assumes "is_double x" and "2 ^ 52 \<le> x"
  obtains k :: int where "x = of_int k"
proof -
  obtain n where "fl x = of_int n * 2 powi grid x" by (rule fl_grid)
  then have n: "x = of_int n * 2 powi grid x" using assms(1) by (simp add: is_double_def)
  have "2 powi 52 \<le> x" using assms(2) by (simp add: powi_nat)
  then have "52 \<le> ilog2 x" by (rule ilog2_ge)
  moreover have "\<bar>x\<bar> = x" using assms(2) by simp
  ultimately have "0 \<le> grid x" by (simp add: grid_def)
  then have "x = of_int (n * 2 ^ nat (grid x))" using n by (simp add: powi_nat)
  then show ?thesis using that by blast
qed

section \<open>Properties of the utilities\<close>

subsection \<open>\<open>formatTime\<close>\<close>

text \<open>
  A whole number below \<open>2^53\<close> is printed with all its digits: a shorter decimal that
  reads back as the number is the number itself.
\<close>

lemma shortest_exact:
  assumes "0 \<le> m" and "m < 2 ^ 53"
  shows "shortest m j = m"
proof (induction j)
  case 0
  show ?case by simp
next
  case (Suc j)
  define c where "c = round_even (of_int m / 10 ^ Suc j) * 10 ^ Suc j"
  have "c = m" if r: "fl (of_int c) = of_int m"
  proof (cases "c < 2 ^ 53")
    case True
    have "(0::real) \<le> of_int m / 10 ^ Suc j" using assms(1) by simp
    then have "0 \<le> round_even (of_int m / 10 ^ Suc j)"
      using round_even_ge [of 0 "of_int m / 10 ^ Suc j"] by simp
    then have "0 \<le> c" by (simp add: c_def)
    then have "fl (of_int c) = of_int c" using True by (intro fl_int) simp
    then show ?thesis using r by simp
  next
    case False
    then have "(2::real) powi 53 \<le> of_int c" by (simp add: powi_nat)
    then have "(2::real) powi 53 \<le> fl (of_int c)"
      using fl_pow2 [of 53] by (intro fl_ge) simp_all
    moreover have "(of_int m :: real) < 2 powi 53" using assms(2) by (simp add: powi_nat)
    ultimately show ?thesis using r by simp
  qed
  then show ?case
    unfolding shortest.simps Let_def c_def [symmetric] using Suc by simp
qed

lemma integer_string_exact:
  assumes "m < 2 ^ 53"
  shows "integer_string m = digits m"
proof -
  have "shortest (int m) j = int m" for j
    using assms by (intro shortest_exact) simp_all
  moreover have "m < 10 ^ 21" using assms by simp
  ultimately show ?thesis by (simp add: integer_string_def)
qed

lemma toString_exact:
  assumes "0 \<le> x" and "x < 2 ^ 53"
  shows "toString (Fin x) = digits (nat \<lfloor>x\<rfloor>)"
proof -
  have "\<lfloor>x\<rfloor> < 2 ^ 53" using assms(2) by (simp add: floor_less_iff)
  then have "nat \<lfloor>x\<rfloor> < nat (2 ^ 53)" using assms(1) by (intro iffD2 [OF nat_less_eq_zless]) simp_all
  then have "nat \<lfloor>x\<rfloor> < 2 ^ 53" by simp
  then show ?thesis using assms(1) by (simp add: integer_string_exact)
qed

text \<open>
  The fractional part of a double is at most \<open>1 - 2^-53\<close>, and a hundred times it rounds
  to a double below 100.
\<close>

lemma frac_double:
  assumes "is_double s" and "0 \<le> s"
  shows "frac s \<le> 1 - 1 / 2 ^ 53"
proof -
  obtain n where n: "fl s = of_int n * 2 powi grid s" "\<bar>n\<bar> \<le> 2 ^ 53" by (rule fl_grid)
  then have s: "s = of_int n * 2 powi grid s" using assms(1) by (simp add: is_double_def)
  consider "0 \<le> grid s" | "- 53 \<le> grid s" "grid s < 0" | "grid s < - 53" by linarith
  then show ?thesis
  proof cases
    case 1
    then have "s = of_int (n * 2 ^ nat (grid s))" using s by (simp add: powi_nat)
    then obtain k :: int where "s = of_int k" ..
    then show ?thesis by simp
  next
    case 2
    have "s * 2 ^ 53 = of_int n * (2 powi grid s * 2 powi 53)"
      using s by (simp add: powi_nat)
    also have "\<dots> = of_int n * 2 powi (grid s + 53)" by (simp only: powi_add)
    also have "\<dots> = of_int (n * 2 ^ nat (grid s + 53))" using 2 by (simp add: powi_nat)
    finally have "frac s * 2 ^ 53 = of_int (n * 2 ^ nat (grid s + 53) - \<lfloor>s\<rfloor> * 2 ^ 53)"
      by (simp add: frac_def algebra_simps)
    then obtain k :: int where k: "frac s * 2 ^ 53 = of_int k" ..
    have "frac s * 2 ^ 53 < 2 ^ 53" using frac_lt_1 [of s] by simp
    then have "of_int k < (of_int (2 ^ 53) :: real)" using k by simp
    then have "k < 2 ^ 53" by (simp only: of_int_less_iff)
    then have "k \<le> 2 ^ 53 - 1" by simp
    then have "(of_int k :: real) \<le> of_int (2 ^ 53 - 1)" by (simp only: of_int_le_iff)
    then have "frac s * 2 ^ 53 \<le> 2 ^ 53 - 1" using k by simp
    then show ?thesis by (simp add: field_simps)
  next
    case 3
    then have "grid s \<le> - 54" by simp
    then have "(2::real) powi grid s \<le> 2 powi (- 54)" by (rule powi_mono)
    then have "of_int \<bar>n\<bar> * (2::real) powi grid s \<le> of_int (2 ^ 53) * 2 powi (- 54)"
      using n(2) by (intro mult_mono) (simp_all only: of_int_le_iff, simp_all)
    moreover have "s = of_int \<bar>n\<bar> * 2 powi grid s"
    proof -
      have "0 * (2::real) powi grid s \<le> of_int n * 2 powi grid s" using s assms(2) by simp
      then have "0 \<le> (of_int n :: real)" by (simp only: mult_le_cancel_right_pos powi_pos)
      then show ?thesis using s by simp
    qed
    ultimately have "s \<le> 1 / 2" by (simp add: power_int_minus)
    moreover have "frac s \<le> s" using assms(2) by (simp add: frac_def)
    ultimately show ?thesis by simp
  qed
qed

lemma fl_hundredths:
  assumes "0 \<le> f" and "f \<le> 1 - 1 / 2 ^ 53"
  shows "0 \<le> fl (f * 100)" and "fl (f * 100) < 100"
proof -
  define y where "y = f * 100"
  have y: "0 \<le> y" "y \<le> 100 - 100 / 2 ^ 53" using assms by (simp_all add: y_def)
  show "0 \<le> fl (f * 100)" using y(1) unfolding y_def by (rule fl_nonneg)
  have "fl y < 100"
  proof (cases "y < 64")
    case True
    have "fl y \<le> 64"
    proof (cases "y = 0")
      case True
      then show ?thesis by simp
    next
      case False
      then show ?thesis
        using y(1) \<open>y < 64\<close> fl_int [of 64] by (intro fl_le) simp_all
    qed
    then show ?thesis by simp
  next
    case False
    then have "2 powi 6 \<le> y" "y < 2 powi (6 + 1)" using y(2) by (simp_all add: powi_nat)
    then have "ilog2 y = 6" by (rule ilog2_eqI)
    then have g: "grid y = - 46" using y(1) by (simp add: grid_def)
    define R where "R = round_even (y / 2 powi (- 46))"
    have "y / 2 powi (- 46) = y * 2 ^ 46" by (simp add: power_int_minus field_simps)
    then have "y / 2 powi (- 46) + 1 / 2 < 100 * 2 ^ 46" using y(2) by simp
    then have "of_int R < (100 * 2 ^ 46 :: real)"
      using round_even_err [of "y / 2 powi (- 46)"] unfolding R_def by linarith
    then have "of_int R * 2 powi (- 46) < (100 * 2 ^ 46 :: real) * 2 powi (- 46)"
      by (simp only: mult_less_cancel_right_pos powi_pos)
    moreover have "fl y = of_int R * 2 powi (- 46)"
      using False y(1) by (simp add: fl_def g R_def)
    ultimately show ?thesis by (simp add: power_int_minus)
  qed
  then show "fl (f * 100) < 100" by (simp add: y_def)
qed

lemma fl_minutes:
  assumes "is_double s" and "0 < s"
  shows "0 \<le> fl (s / 60)" and "fl (s / 60) \<le> s" and "to_number (s / 60) = Fin (fl (s / 60))"
proof -
  show 1: "0 \<le> fl (s / 60)" using assms(2) by (intro fl_nonneg) simp
  show 2: "fl (s / 60) \<le> s" using assms by (intro fl_le) (simp_all add: is_double_def)
  have "\<bar>fl (s / 60)\<bar> < 2 ^ 1024" using 1 2 assms(1) by (simp add: is_double_def)
  then show "to_number (s / 60) = Fin (fl (s / 60))" by (rule to_number_fl)
qed

lemma length_digits_lt10: "n < 10 \<Longrightarrow> length (digits n) = 1"
  by (simp add: digits.simps)

lemma length_digits_lt100: "10 \<le> n \<Longrightarrow> n < 100 \<Longrightarrow> length (digits n) = 2"
  by (subst digits.simps) (simp add: length_digits_lt10)

lemma length_padStart2_lt100: "n < 100 \<Longrightarrow> length (padStart2 (digits n)) = 2"
  by (cases "n < 10") (simp_all add: padStart2_def length_digits_lt10 length_digits_lt100)

lemma length_padStart2_ge: "2 \<le> length (padStart2 s)"
  by (simp add: padStart2_def)

lemma floor_rem_60:
  assumes "0 \<le> s"
  shows "\<lfloor>s - 60 * of_int (trunc (s / 60))\<rfloor> = \<lfloor>s\<rfloor> mod 60"
proof -
  have t: "trunc (s / 60) = \<lfloor>s\<rfloor> div 60"
    using assms floor_divide_real_eq_div [of 60 s] by (simp add: trunc_def)
  have "s - 60 * of_int (\<lfloor>s\<rfloor> div 60) = s - of_int (60 * (\<lfloor>s\<rfloor> div 60))"
    by simp
  then have "\<lfloor>s - 60 * of_int (\<lfloor>s\<rfloor> div 60)\<rfloor> = \<lfloor>s\<rfloor> - 60 * (\<lfloor>s\<rfloor> div 60)"
    by (simp only: floor_diff_of_int)
  also have "\<dots> = \<lfloor>s\<rfloor> mod 60"
    by (simp add: minus_mult_div_eq_mod)
  finally show ?thesis using t by simp
qed

lemma rem_1_frac:
  assumes "0 \<le> s"
  shows "s - 1 * of_int (trunc (s / 1)) = frac s"
  using assms by (simp add: trunc_def frac_def)

lemma formatTime_finite:
  assumes "is_double s" and "0 < s" and "fl (s / 60) < 2 ^ 53"
  shows "formatTime (Fin s) =
     padStart2 (digits (nat \<lfloor>fl (s / 60)\<rfloor>)) @ '':'' @
     padStart2 (digits (nat \<lfloor>s\<rfloor> mod 60)) @ ''.'' @
     padStart2 (digits (nat \<lfloor>fl (frac s * 100)\<rfloor>))"
proof -
  have s0: "0 \<le> s" using assms(2) by simp
  have "of_int \<lfloor>fl (s / 60)\<rfloor> \<le> fl (s / 60)" by simp
  then have "(of_int \<lfloor>fl (s / 60)\<rfloor> :: real) < 2 ^ 53" using assms(3) by linarith
  moreover have "(0::real) \<le> of_int \<lfloor>fl (s / 60)\<rfloor>"
    using fl_minutes(1) [OF assms(1,2)] by simp
  ultimately have m:
    "toString (Math_floor (js_div (Fin s) (Fin 60))) = digits (nat \<lfloor>fl (s / 60)\<rfloor>)"
    using fl_minutes(3) [OF assms(1,2)] toString_exact [of "of_int \<lfloor>fl (s / 60)\<rfloor>"]
    by simp
  have "0 \<le> \<lfloor>s\<rfloor> mod 60" "\<lfloor>s\<rfloor> mod 60 < 60" by simp_all
  then have "(0::real) \<le> of_int (\<lfloor>s\<rfloor> mod 60)" "(of_int (\<lfloor>s\<rfloor> mod 60) :: real) < 2 ^ 53"
    by simp_all
  then have "toString (Fin (of_int (\<lfloor>s\<rfloor> mod 60))) = digits (nat (\<lfloor>s\<rfloor> mod 60))"
    using toString_exact [of "of_int (\<lfloor>s\<rfloor> mod 60)"] by simp
  then have sec:
    "toString (Math_floor (js_rem (Fin s) (Fin 60))) = digits (nat \<lfloor>s\<rfloor> mod 60)"
    using s0 by (simp add: floor_rem_60 nat_mod_distrib)
  have f: "0 \<le> fl (frac s * 100)" "fl (frac s * 100) < 100"
    using fl_hundredths [of "frac s"] frac_double [OF assms(1) s0] by simp_all
  then have h: "to_number (frac s * 100) = Fin (fl (frac s * 100))"
    by (intro to_number_fl) simp
  have "(0::real) \<le> of_int \<lfloor>fl (frac s * 100)\<rfloor>" using f(1) by simp
  moreover have "(of_int \<lfloor>fl (frac s * 100)\<rfloor> :: real) < 2 ^ 53"
  proof -
    have "(of_int \<lfloor>fl (frac s * 100)\<rfloor> :: real) < 100"
      using f(2) of_int_floor_le [of "fl (frac s * 100)"] by linarith
    then show ?thesis by simp
  qed
  ultimately have
    "toString (Fin (of_int \<lfloor>fl (frac s * 100)\<rfloor>)) = digits (nat \<lfloor>fl (frac s * 100)\<rfloor>)"
    using toString_exact [of "of_int \<lfloor>fl (frac s * 100)\<rfloor>"] by simp
  then have ff:
    "toString (Math_floor (js_mul (js_rem (Fin s) (Fin 1)) (Fin 100))) =
     digits (nat \<lfloor>fl (frac s * 100)\<rfloor>)"
    using rem_1_frac [OF s0] h by simp
  show ?thesis
    unfolding formatTime_def Let_def using assms(2) m sec ff by simp
qed

lemma formatTime_widths:
  assumes "is_double s" and "0 \<le> s"
  shows "nat \<lfloor>s\<rfloor> mod 60 < 100" and "nat \<lfloor>fl (frac s * 100)\<rfloor> < 100"
proof -
  show "nat \<lfloor>s\<rfloor> mod 60 < 100"
    using mod_less_divisor [of 60 "nat \<lfloor>s\<rfloor>"] by linarith
  have "fl (frac s * 100) < 100"
    using fl_hundredths(2) [of "frac s"] frac_double [OF assms] by simp
  then have "\<lfloor>fl (frac s * 100)\<rfloor> < 100" by (simp add: floor_less_iff)
  then show "nat \<lfloor>fl (frac s * 100)\<rfloor> < 100" by linarith
qed

text \<open>
  Claim C8, as the program has it. \<open>formatTime\<close> returns \<open>00:00\<close> for every falsy input
  and for \<open>NaN\<close>, in particular for \<open>0\<close>. For every other finite input \<open>s > 0\<close> with
  fewer than \<open>2^53\<close> minutes it returns \<open>MM:SS.ff\<close>: the minutes are the floor of the
  double \<open>s / 60\<close>, the seconds are \<open>floor(s) mod 60\<close> and the hundredths are the floor of
  the double \<open>(s % 1) * 100\<close>, each cut and never rounded once the operator has returned
  its double, each padded with a zero to two digits (seconds and hundredths have exactly
  two, minutes at least two). \<open>formatTime(65.5)\<close> is \<open>01:05.50\<close>.
\<close>

theorem formatTime_fields:
  "(\<not> truthy_number n \<or> isNaN n \<longrightarrow> formatTime n = ''00:00'') \<and>
   formatTime (Fin 0) = ''00:00'' \<and>
   formatTime NaN = ''00:00'' \<and>
   formatTime (Fin 65.5) = ''01:05.50'' \<and>
   (is_double s \<and> 0 < s \<and> fl (s / 60) < 2 ^ 53 \<longrightarrow>
      formatTime (Fin s) =
        padStart2 (digits (nat \<lfloor>fl (s / 60)\<rfloor>)) @ '':'' @
        padStart2 (digits (nat \<lfloor>s\<rfloor> mod 60)) @ ''.'' @
        padStart2 (digits (nat \<lfloor>fl (frac s * 100)\<rfloor>)) \<and>
      2 \<le> length (padStart2 (digits (nat \<lfloor>fl (s / 60)\<rfloor>))) \<and>
      length (padStart2 (digits (nat \<lfloor>s\<rfloor> mod 60))) = 2 \<and>
      length (padStart2 (digits (nat \<lfloor>fl (frac s * 100)\<rfloor>))) = 2)"
proof -
  have falsy: "\<not> truthy_number n \<or> isNaN n \<longrightarrow> formatTime n = ''00:00''"
    by (simp add: formatTime_def)
  have zero: "formatTime (Fin 0) = ''00:00''" and nan: "formatTime NaN = ''00:00''"
    by (simp_all add: formatTime_def)
  have d: "is_double 65.5" "fl (65.5 / 60) < 2 ^ 53"
    by (simp_all add: double_eval Let_def)
  have example: "formatTime (Fin 65.5) = ''01:05.50''"
    using formatTime_finite [OF d(1) _ d(2)]
    by (simp add: double_eval Let_def frac_def padStart2_def digits.simps)
  have general: "formatTime (Fin s) =
        padStart2 (digits (nat \<lfloor>fl (s / 60)\<rfloor>)) @ '':'' @
        padStart2 (digits (nat \<lfloor>s\<rfloor> mod 60)) @ ''.'' @
        padStart2 (digits (nat \<lfloor>fl (frac s * 100)\<rfloor>)) \<and>
      2 \<le> length (padStart2 (digits (nat \<lfloor>fl (s / 60)\<rfloor>))) \<and>
      length (padStart2 (digits (nat \<lfloor>s\<rfloor> mod 60))) = 2 \<and>
      length (padStart2 (digits (nat \<lfloor>fl (frac s * 100)\<rfloor>))) = 2"
    if "is_double s" "0 < s" "fl (s / 60) < 2 ^ 53"
  proof -
    have "0 \<le> s" using that by simp
    then show ?thesis
      using formatTime_finite [OF that] formatTime_widths [OF that(1)]
      by (simp add: length_padStart2_lt100 length_padStart2_ge)
  qed
  show ?thesis using falsy zero nan example general by blast
qed

text \<open>
  The double nearest to 0.29 is \<open>5224175567749775 / 2^54\<close>, and a hundred times it rounds
  to a double below 29.
\<close>

theorem formatTime_fields_witness:
  "formatTime (Fin (5224175567749775 / 2 ^ 54)) = ''00:00.28'' \<and>
   formatTime (Fin 125.25) = ''02:05.25''"
  using formatTime_fields [of NaN "5224175567749775 / 2 ^ 54"] formatTime_fields [of NaN "125.25"]
  by (simp add: double_eval Let_def frac_def padStart2_def digits.simps)

lemma integer_string_1e21: "integer_string 1000000000000000000000 = ''1e+21''"
  by (simp add: double_eval Let_def integer_string_def exponent_form_def strip_zeros_def
      digits.simps)

lemma integer_string_2p60: "integer_string 1152921504606846976 = ''1152921504606847000''"
  by (simp add: double_eval Let_def integer_string_def digits.simps)

lemma integer_string_0: "integer_string 0 = ''0''"
  by (simp add: integer_string_def digits.simps)

text \<open>
  Claim C8 as it was stated covers every nonnegative input that is neither falsy nor
  \<open>NaN\<close>, and has every field cut, never rounded. \<open>Infinity\<close> is such an input, and the
  result for it is not of the form \<open>MM:SS.ff\<close>. The double nearest to 0.35 is
  \<open>3152519739159347 / 2^53\<close>, below 0.35: a hundred times its fractional part is below 35
  and rounds to the double 35, so the hundredths printed are 35 and not 34. And the
  minutes are not the digits of the floor for every finite input: from \<open>10^21\<close> minutes on
  they are printed with an exponent, and \<open>2^60\<close> minutes are printed as
  1152921504606847000, the shortest decimal that reads back as \<open>2^60 = 1152921504606846976\<close>.
\<close>

theorem formatTime_Infinity:
  "formatTime PosInf = ''Infinity:NaN.NaN'' \<and>
   formatTime (Fin (3152519739159347 / 2 ^ 53)) = ''00:00.35'' \<and>
   \<lfloor>frac (3152519739159347 / 2 ^ 53 :: real) * 100\<rfloor> = 34 \<and>
   formatTime (Fin (6 * 10 ^ 22)) = ''1e+21:00.00'' \<and>
   formatTime (Fin (60 * 2 ^ 60)) = ''1152921504606847000:00.00''"
  by (simp add: formatTime_def padStart2_def double_eval Let_def trunc_def frac_def
      integer_string_1e21 integer_string_2p60 integer_string_0 integer_string_exact
      digits.simps)

subsection \<open>\<open>normalizePosition\<close> and \<open>denormalizePosition\<close>\<close>

text \<open>
  The three roundings of the round trip (the difference, the quotient, the product), for
  an offset \<open>d\<close> and a size \<open>w\<close> between \<open>2^-500\<close> and \<open>2^500\<close>.
\<close>

lemma round_trip:
  assumes w: "1 / 2 ^ 500 \<le> w" "w \<le> 2 ^ 500"
    and d: "d = 0 \<or> 1 / 2 ^ 500 \<le> \<bar>d\<bar> \<and> \<bar>d\<bar> \<le> 2 ^ 500"
  obtains r where "js_mul (js_div (to_number d) (Fin w)) (Fin w) = Fin r"
    and "\<bar>r - d\<bar> \<le> \<bar>d\<bar> / 2 ^ 51"
proof (cases "d = 0")
  case True
  have w0: "w \<noteq> 0" using w(1) by auto
  have "to_number 0 = Fin 0" by (simp add: to_number_def)
  then have "js_mul (js_div (to_number d) (Fin w)) (Fin w) = Fin 0"
    using True w0 by simp
  then show ?thesis using that True by simp
next
  case False
  have w0: "0 < w" using w(1) by (auto intro: less_le_trans [rotated])
  have dd: "1 / 2 ^ 500 \<le> \<bar>d\<bar>" "\<bar>d\<bar> \<le> 2 ^ 500" using d False by simp_all
  have "(1::real) / 2 ^ 1010 \<le> 1 / 2 ^ 500" "(2::real) ^ 500 \<le> 2 ^ 1010" by simp_all
  then have "1 / 2 ^ 1010 \<le> \<bar>d\<bar>" "\<bar>d\<bar> \<le> 2 ^ 1010" using dd by linarith+
  then obtain a where a: "to_number d = Fin (d * (1 + a))" "\<bar>a\<bar> \<le> 1 / 2 ^ 53"
    "\<bar>d\<bar> / 2 \<le> \<bar>d * (1 + a)\<bar>" "\<bar>d * (1 + a)\<bar> \<le> 2 * \<bar>d\<bar>"
    by (rule round_step)
  define x where "x = d * (1 + a)"
  have x: "1 / 2 ^ 501 \<le> \<bar>x\<bar>" "\<bar>x\<bar> \<le> 2 ^ 501"
    using a(3,4) dd by (simp_all add: x_def)
  define q where "q = x / w"
  have "\<bar>q\<bar> = \<bar>x\<bar> / w" using w0 by (simp add: q_def)
  have qlo: "1 / 2 ^ 1010 \<le> \<bar>q\<bar>"
  proof -
    have "1 / 2 ^ 501 / 2 ^ 500 \<le> \<bar>x\<bar> / w"
      using x(1) w(2) w0 by (intro frac_le) simp_all
    then show ?thesis using \<open>\<bar>q\<bar> = \<bar>x\<bar> / w\<close> by simp
  qed
  have qhi: "\<bar>q\<bar> \<le> 2 ^ 1010"
  proof -
    have "\<bar>x\<bar> / w \<le> 2 ^ 501 / (1 / 2 ^ 500)"
      using x(2) w(1) by (intro frac_le) simp_all
    then show ?thesis using \<open>\<bar>q\<bar> = \<bar>x\<bar> / w\<close> by simp
  qed
  obtain b where b: "to_number q = Fin (q * (1 + b))" "\<bar>b\<bar> \<le> 1 / 2 ^ 53"
    using qlo qhi by (rule round_step)
  define y where "y = q * (1 + b) * w"
  have y: "y = x * (1 + b)" using w0 by (simp add: y_def q_def)
  have "\<bar>b\<bar> \<le> 1 / 2" using b(2) by simp
  then have m: "1 / 2 \<le> \<bar>1 + b\<bar>" "\<bar>1 + b\<bar> \<le> 2" by linarith+
  have "\<bar>x\<bar> * (1 / 2) \<le> \<bar>x\<bar> * \<bar>1 + b\<bar>" using m(1) by (intro mult_left_mono) simp_all
  then have ylo: "1 / 2 ^ 1010 \<le> \<bar>y\<bar>" using x(1) by (simp add: y abs_mult)
  have "\<bar>x\<bar> * \<bar>1 + b\<bar> \<le> \<bar>x\<bar> * 2" using m(2) by (intro mult_left_mono) simp_all
  then have yhi: "\<bar>y\<bar> \<le> 2 ^ 1010" using x(2) by (simp add: y abs_mult)
  obtain c where c: "to_number y = Fin (y * (1 + c))" "\<bar>c\<bar> \<le> 1 / 2 ^ 53"
    using ylo yhi by (rule round_step)
  have w1: "w \<noteq> 0" using w0 by simp
  have res: "js_mul (js_div (to_number d) (Fin w)) (Fin w) = Fin (y * (1 + c))"
    using a(1) b(1) c(1) w1 by (simp add: x_def [symmetric] q_def [symmetric] y_def [symmetric])
  have "\<bar>(1 + a) * (1 + b) - 1\<bar> \<le> 1 / 2 ^ 53 + 1 / 2 ^ 53 + 1 / 2 ^ 53 * (1 / 2 ^ 53)"
    using a(2) b(2) by (rule relative_product)
  then have "\<bar>(1 + ((1 + a) * (1 + b) - 1)) * (1 + c) - 1\<bar>
      \<le> (1 / 2 ^ 53 + 1 / 2 ^ 53 + 1 / 2 ^ 53 * (1 / 2 ^ 53)) + 1 / 2 ^ 53 +
        (1 / 2 ^ 53 + 1 / 2 ^ 53 + 1 / 2 ^ 53 * (1 / 2 ^ 53)) * (1 / 2 ^ 53)"
    using c(2) by (rule relative_product)
  also have "\<dots> \<le> (1::real) / 2 ^ 51" by simp
  finally have e: "\<bar>(1 + a) * (1 + b) * (1 + c) - 1\<bar> \<le> 1 / 2 ^ 51" by simp
  have "y * (1 + c) - d = d * ((1 + a) * (1 + b) * (1 + c) - 1)"
    by (simp add: y x_def algebra_simps)
  then have "\<bar>y * (1 + c) - d\<bar> = \<bar>d\<bar> * \<bar>(1 + a) * (1 + b) * (1 + c) - 1\<bar>"
    by (simp only: abs_mult)
  also have "\<dots> \<le> \<bar>d\<bar> * (1 / 2 ^ 51)"
    using e by (intro mult_left_mono) simp_all
  finally have "\<bar>y * (1 + c) - d\<bar> \<le> \<bar>d\<bar> / 2 ^ 51" by simp
  then show ?thesis using that res by blast
qed

text \<open>
  Claim C7, as the program has it. For a pointer at \<open>(clientX, clientY)\<close> and an element
  whose box has the corner \<open>(left, top)\<close>, a width \<open>w\<close> and a height \<open>h\<close>,
  \<open>denormalizePosition\<close> of the normalized position, with the same \<open>w\<close> and \<open>h\<close>, is the
  pixel position of the pointer inside the element, \<open>(clientX - left, clientY - top)\<close>,
  up to a relative error of \<open>2^-51\<close> in each coordinate: three roundings of a double.
  This holds when \<open>w\<close> and \<open>h\<close> are between \<open>2^-500\<close> and \<open>2^500\<close> and each offset is zero
  or between \<open>2^-500\<close> and \<open>2^500\<close> in size, so that no quotient leaves the range of the
  normal doubles.
\<close>

theorem denormalize_normalize_tolerance:
  assumes w: "1 / 2 ^ 500 \<le> w" "w \<le> 2 ^ 500"
    and h: "1 / 2 ^ 500 \<le> h" "h \<le> 2 ^ 500"
    and dx: "cx - l = 0 \<or> 1 / 2 ^ 500 \<le> \<bar>cx - l\<bar> \<and> \<bar>cx - l\<bar> \<le> 2 ^ 500"
    and dy: "cy - t = 0 \<or> 1 / 2 ^ 500 \<le> \<bar>cy - t\<bar> \<and> \<bar>cy - t\<bar> \<le> 2 ^ 500"
  shows "\<exists>rx ry.
     (let n = normalizePosition (Fin cx) (Fin cy)
                \<lparr> rect_left = Fin l, rect_top = Fin t, rect_width = Fin w,
                  rect_height = Fin h \<rparr>
      in denormalizePosition (pos_x n) (pos_y n) (Fin w) (Fin h))
       = \<lparr> pos_x = Fin rx, pos_y = Fin ry \<rparr> \<and>
     \<bar>rx - (cx - l)\<bar> \<le> \<bar>cx - l\<bar> / 2 ^ 51 \<and>
     \<bar>ry - (cy - t)\<bar> \<le> \<bar>cy - t\<bar> / 2 ^ 51"
proof -
  obtain rx where rx: "js_mul (js_div (to_number (cx - l)) (Fin w)) (Fin w) = Fin rx"
    "\<bar>rx - (cx - l)\<bar> \<le> \<bar>cx - l\<bar> / 2 ^ 51"
    using w dx by (rule round_trip)
  obtain ry where ry: "js_mul (js_div (to_number (cy - t)) (Fin h)) (Fin h) = Fin ry"
    "\<bar>ry - (cy - t)\<bar> \<le> \<bar>cy - t\<bar> / 2 ^ 51"
    using h dy by (rule round_trip)
  have "(let n = normalizePosition (Fin cx) (Fin cy)
                \<lparr> rect_left = Fin l, rect_top = Fin t, rect_width = Fin w,
                  rect_height = Fin h \<rparr>
      in denormalizePosition (pos_x n) (pos_y n) (Fin w) (Fin h))
       = \<lparr> pos_x = Fin rx, pos_y = Fin ry \<rparr>"
    using rx(1) ry(1) by (simp add: normalizePosition_def denormalizePosition_def js_sub_def)
  then show ?thesis using rx(2) ry(2) by blast
qed

text \<open>
  A pointer one pixel right of the corner of a box 49 pixels wide comes back at
  \<open>1 - 2^-53\<close>, not at 1.
\<close>

theorem denormalize_normalize_tolerance_witness:
  "(let n = normalizePosition (Fin 11) (Fin 105)
              \<lparr> rect_left = Fin 10, rect_top = Fin 80, rect_width = Fin 49,
                rect_height = Fin 50 \<rparr>
    in denormalizePosition (pos_x n) (pos_y n) (Fin 49) (Fin 50))
   = \<lparr> pos_x = Fin (1 - 1 / 2 ^ 53), pos_y = Fin 25 \<rparr> \<and>
   \<bar>(1 - 1 / 2 ^ 53) - (11 - 10)\<bar> \<le> \<bar>11 - 10 :: real\<bar> / 2 ^ 51"
proof -
  have "\<exists>rx ry.
     (let n = normalizePosition (Fin 11) (Fin 105)
                \<lparr> rect_left = Fin 10, rect_top = Fin 80, rect_width = Fin 49,
                  rect_height = Fin 50 \<rparr>
      in denormalizePosition (pos_x n) (pos_y n) (Fin 49) (Fin 50))
       = \<lparr> pos_x = Fin rx, pos_y = Fin ry \<rparr> \<and>
     \<bar>rx - (11 - 10)\<bar> \<le> \<bar>11 - 10\<bar> / 2 ^ 51 \<and>
     \<bar>ry - (105 - 80)\<bar> \<le> \<bar>105 - 80\<bar> / 2 ^ 51"
    by (rule denormalize_normalize_tolerance) simp_all
  then obtain rx ry where r:
    "(let n = normalizePosition (Fin 11) (Fin 105)
                \<lparr> rect_left = Fin 10, rect_top = Fin 80, rect_width = Fin 49,
                  rect_height = Fin 50 \<rparr>
      in denormalizePosition (pos_x n) (pos_y n) (Fin 49) (Fin 50))
       = \<lparr> pos_x = Fin rx, pos_y = Fin ry \<rparr>"
    "\<bar>rx - (11 - 10)\<bar> \<le> \<bar>11 - 10\<bar> / 2 ^ 51"
    by blast
  have "(let n = normalizePosition (Fin 11) (Fin 105)
                \<lparr> rect_left = Fin 10, rect_top = Fin 80, rect_width = Fin 49,
                  rect_height = Fin 50 \<rparr>
      in denormalizePosition (pos_x n) (pos_y n) (Fin 49) (Fin 50))
       = \<lparr> pos_x = Fin (1 - 1 / 2 ^ 53), pos_y = Fin 25 \<rparr>"
    by (simp add: normalizePosition_def denormalizePosition_def js_sub_def double_eval Let_def)
  then have "rx = 1 - 1 / 2 ^ 53" using r(1) by simp
  then show ?thesis
    using r \<open>_ = \<lparr> pos_x = Fin (1 - 1 / 2 ^ 53), pos_y = Fin 25 \<rparr>\<close> by simp
qed

lemma overflow_quotient: "js_div (js_sub (Fin 1) (Fin 0)) (Fin (1 / 2 ^ 1030)) = PosInf"
proof -
  have "fl (1 / (1 / 2 ^ 1030)) = 2 ^ 1030"
    using fl_pow2 [of 1030] by (simp add: powi_nat)
  then have "to_number (1 / (1 / 2 ^ 1030)) = PosInf"
    by (simp add: to_number_def)
  moreover have "js_sub (Fin 1) (Fin 0) = Fin 1"
    using fl_int [of 1] by (simp add: js_sub_def to_number_def)
  ultimately show ?thesis by simp
qed

text \<open>
  Claim C7 as it was stated covers every box of a width \<open>w > 0\<close> and a height \<open>h > 0\<close>.
  In a box \<open>2^-1030\<close> wide and high the quotient of the offset 1 overflows: the position
  that comes back is \<open>(Infinity, Infinity)\<close>, which is within no tolerance of \<open>(1, 1)\<close>.
\<close>

theorem denormalize_normalize_overflow:
  "(let n = normalizePosition (Fin 1) (Fin 1)
              \<lparr> rect_left = Fin 0, rect_top = Fin 0, rect_width = Fin (1 / 2 ^ 1030),
                rect_height = Fin (1 / 2 ^ 1030) \<rparr>
    in denormalizePosition (pos_x n) (pos_y n) (Fin (1 / 2 ^ 1030)) (Fin (1 / 2 ^ 1030)))
   = \<lparr> pos_x = PosInf, pos_y = PosInf \<rparr>"
  by (simp only: normalizePosition_def denormalizePosition_def Let_def Point.select_convs
      DOMRect.select_convs overflow_quotient) simp

section \<open>Properties of the controller\<close>

subsection \<open>Adding an annotation\<close>

lemma parseFloat_toFixed2_double:
  assumes "is_double x" and "0 \<le> x"
  shows "parseFloat_toFixed2 (Fin x) = Fin (fl (of_int \<lfloor>x * 100 + 1 / 2\<rfloor> / 100))"
proof (cases "x < 10 ^ 21")
  case True
  define n where "n = \<lfloor>x * 100 + 1 / 2\<rfloor>"
  have n0: "0 \<le> n" using assms(2) by (simp add: n_def)
  have "of_int n \<le> x * 100 + 1 / 2" by (simp add: n_def)
  then have "(of_int n :: real) / 100 \<le> 10 ^ 21 + 1" using True by simp
  moreover have "(10 ^ 21 + 1 :: real) \<le> 2 powi 70" by (simp add: powi_nat)
  ultimately have "(of_int n :: real) / 100 \<le> 2 powi 70" by linarith
  then have "fl (of_int n / 100) \<le> 2 powi 70"
  proof (cases "n = 0")
    case True
    then show ?thesis by simp
  next
    case False
    then have "(0::real) < of_int n / 100" using n0 by simp
    then show ?thesis
      using \<open>of_int n / 100 \<le> 2 powi 70\<close> fl_pow2 [of 70] by (intro fl_le) simp_all
  qed
  moreover have "0 \<le> fl (of_int n / 100)" using n0 by (intro fl_nonneg) simp
  ultimately have "\<bar>fl (of_int n / 100)\<bar> < 2 ^ 1024" by (simp add: powi_nat)
  then have fin: "to_number (of_int n / 100) = Fin (fl (of_int n / 100))" by (rule to_number_fl)
  have eq: "sgn x * of_int \<lfloor>\<bar>x\<bar> * 100 + 1 / 2\<rfloor> / 100 = of_int n / 100"
  proof (cases "x = 0")
    case True
    then show ?thesis by (simp add: n_def)
  next
    case False
    then have "0 < x" using assms(2) by simp
    then show ?thesis by (simp add: n_def)
  qed
  have "parseFloat_toFixed2 (Fin x) =
      to_number (sgn x * of_int \<lfloor>\<bar>x\<bar> * 100 + 1 / 2\<rfloor> / 100)"
    using True assms(2) by simp
  also have "\<dots> = to_number (of_int n / 100)" by (simp only: eq)
  also have "\<dots> = Fin (fl (of_int n / 100))" by (rule fin)
  finally show ?thesis unfolding n_def .
next
  case False
  then have big: "10 ^ 21 \<le> x" by simp
  then have "2 ^ 52 \<le> x" by simp
  then obtain k :: int where k: "x = of_int k" by (rule double_whole [OF assms(1)])
  have "\<lfloor>x * 100 + 1 / 2\<rfloor> = k * 100" by (rule floor_unique) (simp_all add: k)
  then have "fl (of_int \<lfloor>x * 100 + 1 / 2\<rfloor> / 100) = fl x" by (simp add: k)
  then show ?thesis using big assms by (simp add: is_double_def)
qed

lemma round2_close:
  fixes d :: real
  shows "\<bar>of_int \<lfloor>d * 100 + 1 / 2\<rfloor> / 100 - d\<bar> \<le> 1 / 200"
proof -
  let ?n = "\<lfloor>d * 100 + 1 / 2\<rfloor>"
  have "of_int ?n \<le> d * 100 + 1 / 2" by (rule of_int_floor_le)
  moreover have "d * 100 + 1 / 2 < of_int ?n + 1" by linarith
  ultimately show ?thesis by linarith
qed

text \<open>
  Claim C2. An annotation made at the position \<open>(x, y)\<close> and the video time \<open>t\<close>, on a
  video of the duration \<open>D\<close> with \<open>0 \<le> t \<le> D\<close> (\<open>D\<close> may be \<open>Infinity\<close>), appends one
  annotation and exactly one clip. The clip starts at \<open>a = max(0, t - 0.5)\<close> and ends at
  \<open>e = min(D, a + 2)\<close>, where the difference and the sum are the doubles that the
  operators return; its duration is the double \<open>e - a\<close> rounded to two decimals (the double
  nearest to \<open>n / 100\<close>, for a whole \<open>n\<close> with \<open>n / 100\<close> within 0.005 of \<open>e - a\<close>); its
  speed is 0.5 and its zoom target is \<open>(x, y)\<close>. So \<open>0 \<le> a \<le> t\<close> and \<open>e \<le> D\<close>.
\<close>

theorem handleAddAnnotation_clip:
  assumes t: "is_double t" "0 \<le> t"
    and dur: "is_Number (duration s)" "js_le (Fin t) (duration s)"
    and label: "label \<noteq> []"
  shows "let a = max 0 (fl (t - 1 / 2));
             e = (case duration s of Fin D \<Rightarrow> min D (fl (a + 2)) | _ \<Rightarrow> fl (a + 2));
             n = \<lfloor>fl (e - a) * 100 + 1 / 2\<rfloor>;
             s' = handleAddAnnotation px py (Fin t) iw (Some label) id1 id2 s
         in clips s' = clips s @
              [\<lparr> clip_id = id2, clip_name = label, startTime = Fin a, endTime = Fin e,
                 clip_duration = Fin (fl (of_int n / 100)), speed = Fin (1 / 2),
                 zoomX = px, zoomY = py \<rparr>] \<and>
            annotations s' = annotations s @
              [\<lparr> anno_id = id1, anno_x = px, anno_y = py, anno_time = Fin t,
                 anno_text = label, anno_color = currentColor s \<rparr>] \<and>
            Fin a = Math_max (Fin 0) (js_sub (Fin t) (Fin (1 / 2))) \<and>
            Fin e = Math_min (duration s) (js_add (Fin a) (Fin 2)) \<and>
            Fin (fl (e - a)) = js_sub (Fin e) (Fin a) \<and>
            0 \<le> a \<and> a \<le> t \<and> js_le (Fin e) (duration s) \<and>
            \<bar>of_int n / 100 - fl (e - a)\<bar> \<le> 1 / 200"
proof -
  define a where "a = max 0 (fl (t - 1 / 2))"
  define e where "e = (case duration s of Fin D \<Rightarrow> min D (fl (a + 2)) | _ \<Rightarrow> fl (a + 2))"
  define n where "n = \<lfloor>fl (e - a) * 100 + 1 / 2\<rfloor>"
  define s' where "s' = handleAddAnnotation px py (Fin t) iw (Some label) id1 id2 s"
  have t2: "\<bar>t\<bar> < 2 ^ 1024" using t(1) by (simp add: is_double_def)
  have h: "- (1 / 2) \<le> fl (t - 1 / 2)" "fl (t - 1 / 2) \<le> t" using t by (rule fl_sub_half)+
  then have "\<bar>fl (t - 1 / 2)\<bar> < 2 ^ 1024" using t2 t(2) by simp
  then have sub: "js_sub (Fin t) (Fin (1 / 2)) = Fin (fl (t - 1 / 2))"
    by (simp add: js_sub_def to_number_fl)
  then have start: "Math_max (Fin 0) (js_sub (Fin t) (Fin (1 / 2))) = Fin a"
    by (simp add: a_def)
  have a: "0 \<le> a" "a \<le> t" using h(2) t(2) by (simp_all add: a_def)
  have "fl a = a" by (simp add: a_def max_def)
  then have da: "is_double a" using a t2 by (simp add: is_double_def)
  have p: "a \<le> fl (a + 2)" "fl (a + 2) < 2 ^ 1024" using da a(1) by (rule fl_add2)+
  then have "\<bar>fl (a + 2)\<bar> < 2 ^ 1024" using a(1) by simp
  then have add: "to_number (a + 2) = Fin (fl (a + 2))" by (rule to_number_fl)
  have dp: "is_double (fl (a + 2))" using \<open>\<bar>fl (a + 2)\<bar> < 2 ^ 1024\<close> by (rule is_double_fl)
  have finish: "Math_min (duration s) (Fin (fl (a + 2))) = Fin e"
    and e: "a \<le> e" "is_double e" "js_le (Fin e) (duration s)"
    using dur p(1) a(2) dp by (cases "duration s"; simp add: e_def min_def)+
  have e0: "0 \<le> e" using a(1) e(1) by simp
  have "fl (e - a) \<le> e"
  proof (cases "e - a = 0")
    case True
    then show ?thesis using e0 by simp
  next
    case False
    then show ?thesis using e(1,2) a(1) by (intro fl_le) (simp_all add: is_double_def)
  qed
  moreover have x0: "0 \<le> fl (e - a)" using e(1) by (intro fl_nonneg) simp
  ultimately have x2: "\<bar>fl (e - a)\<bar> < 2 ^ 1024" using e(2) e0 by (simp add: is_double_def)
  then have diff: "js_sub (Fin e) (Fin a) = Fin (fl (e - a))"
    by (simp add: js_sub_def to_number_fl)
  have "is_double (fl (e - a))" using x2 by (rule is_double_fl)
  then have round: "parseFloat_toFixed2 (Fin (fl (e - a))) = Fin (fl (of_int n / 100))"
    using x0 unfolding n_def by (rule parseFloat_toFixed2_double)
  have c: "clips s' = clips s @
     [\<lparr> clip_id = id2, clip_name = label, startTime = Fin a, endTime = Fin e,
        clip_duration = Fin (fl (of_int n / 100)), speed = Fin (1 / 2),
        zoomX = px, zoomY = py \<rparr>]"
    using label
    by (simp add: s'_def handleAddAnnotation_def Let_def start add finish diff round
        del: parseFloat_toFixed2.simps)
  have m: "annotations s' = annotations s @
     [\<lparr> anno_id = id1, anno_x = px, anno_y = py, anno_time = Fin t,
        anno_text = label, anno_color = currentColor s \<rparr>]"
    using label by (simp add: s'_def handleAddAnnotation_def Let_def)
  have close: "\<bar>of_int n / 100 - fl (e - a)\<bar> \<le> 1 / 200" unfolding n_def by (rule round2_close)
  have 1: "Fin a = Math_max (Fin 0) (js_sub (Fin t) (Fin (1 / 2)))"
    using start by simp
  have 2: "Fin e = Math_min (duration s) (js_add (Fin a) (Fin 2))"
    using finish add by simp
  have 3: "Fin (fl (e - a)) = js_sub (Fin e) (Fin a)"
    using diff by simp
  show ?thesis
    unfolding Let_def a_def [symmetric] e_def [symmetric] n_def [symmetric] s'_def [symmetric]
    using c m 1 2 3 a e(3) close by blast
qed

text \<open>
  At \<open>t = 0.501\<close> on a video of 1.006 seconds the clip runs from the double
  \<open>0.501 - 0.5\<close> to 1.006. The double \<open>e - a\<close> is below 1.005, and the duration is 1.
\<close>

theorem handleAddAnnotation_clip_witness:
  "clips (handleAddAnnotation (Fin (1 / 4)) (Fin (3 / 4)) (Fin (4512606826625237 / 2 ^ 53))
            (Fin 1024) (Some ''Point 1'') ''a1'' ''c1''
            (initial_App\<lparr> duration := Fin (4530621225134719 / 2 ^ 52) \<rparr>)) =
     [\<lparr> clip_id = ''c1'', clip_name = ''Point 1'',
        startTime = Fin (9007199254741 / 2 ^ 53), endTime = Fin (4530621225134719 / 2 ^ 52),
        clip_duration = Fin 1, speed = Fin (1 / 2), zoomX = Fin (1 / 4), zoomY = Fin (3 / 4) \<rparr>]"
proof -
  let ?s = "initial_App\<lparr> duration := Fin (4530621225134719 / 2 ^ 52) \<rparr>"
  have "is_double (4512606826625237 / 2 ^ 53)" "is_Number (duration ?s)"
    by (simp_all add: double_eval Let_def)
  moreover have "(0::real) \<le> 4512606826625237 / 2 ^ 53"
    "js_le (Fin (4512606826625237 / 2 ^ 53)) (duration ?s)" "''Point 1'' \<noteq> []"
    by simp_all
  ultimately have c:
    "let a = max 0 (fl (4512606826625237 / 2 ^ 53 - 1 / 2));
         e = (case duration ?s of Fin D \<Rightarrow> min D (fl (a + 2)) | _ \<Rightarrow> fl (a + 2));
         n = \<lfloor>fl (e - a) * 100 + 1 / 2\<rfloor>
     in clips (handleAddAnnotation (Fin (1 / 4)) (Fin (3 / 4)) (Fin (4512606826625237 / 2 ^ 53))
            (Fin 1024) (Some ''Point 1'') ''a1'' ''c1'' ?s) = clips ?s @
          [\<lparr> clip_id = ''c1'', clip_name = ''Point 1'', startTime = Fin a, endTime = Fin e,
             clip_duration = Fin (fl (of_int n / 100)), speed = Fin (1 / 2),
             zoomX = Fin (1 / 4), zoomY = Fin (3 / 4) \<rparr>]"
    using handleAddAnnotation_clip [of "4512606826625237 / 2 ^ 53" ?s "''Point 1''"
      "Fin (1 / 4)" "Fin (3 / 4)" "Fin 1024" "''a1''" "''c1''"]
    unfolding Let_def by blast
  show ?thesis
    unfolding c [unfolded Let_def] by (simp add: initial_App_def double_eval Let_def)
qed

text \<open>
  Claim C6. When the prompt for the label is cancelled (\<open>null\<close>) or answered with the
  empty string, \<open>handleAddAnnotation\<close> appends no annotation and no clip: both lists are
  as they were.
\<close>

theorem handleAddAnnotation_no_label:
  assumes "reply = None \<or> reply = Some []"
  shows "annotations (handleAddAnnotation px py time iw reply id1 id2 s) = annotations s \<and>
         clips (handleAddAnnotation px py time iw reply id1 id2 s) = clips s"
  using assms by (auto simp: handleAddAnnotation_def Let_def)

theorem handleAddAnnotation_no_label_witness:
  "annotations (handleAddAnnotation (Fin (1 / 4)) (Fin (3 / 4)) (Fin 1) (Fin 1024) (Some [])
      ''a1'' ''c1'' initial_App) = [] \<and>
   clips (handleAddAnnotation (Fin (1 / 4)) (Fin (3 / 4)) (Fin 1) (Fin 1024) None
      ''a1'' ''c1'' initial_App) = []"
  using handleAddAnnotation_no_label [of "Some []" "Fin (1 / 4)" "Fin (3 / 4)" "Fin 1" "Fin 1024"
      "''a1''" "''c1''" initial_App]
    handleAddAnnotation_no_label [of None "Fin (1 / 4)" "Fin (3 / 4)" "Fin 1" "Fin 1024"
      "''a1''" "''c1''" initial_App]
  by (simp add: initial_App_def)

section \<open>Properties of the pointer capture\<close>

lemma pointer_moves_snoc:
  "pointer_moves m (cs @ [c]) p = fst (handlePointerMove m (fst c) (snd c) (pointer_moves m cs p))"
  by (simp add: pointer_moves_def)

lemma pointer_moves_pen:
  assumes "isDrawing p" and "containerRef p = Some rect"
  shows "isDrawing (pointer_moves pen_mode cs p) \<and>
         containerRef (pointer_moves pen_mode cs p) = Some rect \<and>
         videoRef (pointer_moves pen_mode cs p) = videoRef p \<and>
         currentPathRef (pointer_moves pen_mode cs p) =
           currentPathRef p @ map (sample False rect) cs"
proof (induction cs rule: rev_induct)
  case Nil
  show ?case using assms by (simp add: pointer_moves_def)
next
  case (snoc c cs)
  then show ?case
    by (simp add: pointer_moves_snoc handlePointerMove_def sample_def Let_def)
qed

lemma pen_gesture:
  assumes "containerRef q = Some rect" and "videoRef q = Some v"
  shows "let p2 = pointer_moves pen_mode cs (fst (handlePointerDown pen_mode cx cy q)) in
      isDrawing p2 \<and> videoRef p2 = Some v \<and>
      currentPathRef p2 = sample True rect (cx, cy) # map (sample False rect) cs"
proof -
  let ?p1 = "fst (handlePointerDown pen_mode cx cy q)"
  have "isDrawing ?p1" "containerRef ?p1 = Some rect" "videoRef ?p1 = Some v"
    "currentPathRef ?p1 = [sample True rect (cx, cy)]"
    using assms by (simp_all add: handlePointerDown_def sample_def Let_def)
  then show ?thesis using pointer_moves_pen [of ?p1 rect cs] by (simp add: Let_def)
qed

text \<open>
  Claim C5. A capture in progress (\<open>isDrawing\<close>, with the video element mounted) that
  ends with \<open>pointerup\<close> or \<open>pointerleave\<close> is closed and its path is reset. If fewer
  than two points were recorded no drawing is emitted, and the list of drawings is as it
  was; otherwise exactly one drawing is emitted and appended, with the recorded path, the
  position of the video, the current colour and the brush size. After a \<open>pointerdown\<close>
  and a run of \<open>pointermove\<close> in pen mode the recorded path is the sample of each event,
  in the order of the events.
\<close>

theorem handlePointerUp_capture:
  assumes "isDrawing p" and "videoRef p = Some v"
  shows "handlePointerUp col bsz now p =
           (p\<lparr> isDrawing := False, currentPathRef := [] \<rparr>,
            if length (currentPathRef p) < 2 then None
            else Some (onAddDrawing
              \<lparr> drawing_id = now, drawing_time = v_currentTime v, drawing_color = col,
                drawing_size = bsz, drawing_path = currentPathRef p \<rparr>)) \<and>
         (playerRef s = p \<longrightarrow>
            drawings (pointerUp now s) =
              (if length (currentPathRef p) < 2 then drawings s
               else drawings s @
                 [\<lparr> drawing_id = now, drawing_time = v_currentTime v,
                    drawing_color = currentColor s, drawing_size = brushSize s,
                    drawing_path = currentPathRef p \<rparr>])) \<and>
         (containerRef q = Some rect \<and> videoRef q = Some v \<longrightarrow>
            snd (handlePointerUp col bsz now
                  (pointer_moves pen_mode cs (fst (handlePointerDown pen_mode cx cy q)))) =
              (if cs = [] then None
               else Some (onAddDrawing
                 \<lparr> drawing_id = now, drawing_time = v_currentTime v, drawing_color = col,
                   drawing_size = bsz,
                   drawing_path = sample True rect (cx, cy) # map (sample False rect) cs \<rparr>)))"
proof (intro conjI impI)
  show "handlePointerUp col bsz now p =
           (p\<lparr> isDrawing := False, currentPathRef := [] \<rparr>,
            if length (currentPathRef p) < 2 then None
            else Some (onAddDrawing
              \<lparr> drawing_id = now, drawing_time = v_currentTime v, drawing_color = col,
                drawing_size = bsz, drawing_path = currentPathRef p \<rparr>))"
    using assms by (auto simp: handlePointerUp_def)
next
  assume "playerRef s = p"
  then show "drawings (pointerUp now s) =
              (if length (currentPathRef p) < 2 then drawings s
               else drawings s @
                 [\<lparr> drawing_id = now, drawing_time = v_currentTime v,
                    drawing_color = currentColor s, drawing_size = brushSize s,
                    drawing_path = currentPathRef p \<rparr>])"
    using assms by (auto simp: pointerUp_def handlePointerUp_def handleAddDrawing_def)
next
  assume q: "containerRef q = Some rect \<and> videoRef q = Some v"
  let ?p2 = "pointer_moves pen_mode cs (fst (handlePointerDown pen_mode cx cy q))"
  have g: "isDrawing ?p2" "videoRef ?p2 = Some v"
    "currentPathRef ?p2 = sample True rect (cx, cy) # map (sample False rect) cs"
    using pen_gesture [of q rect v cs cx cy] q by (simp_all add: Let_def)
  show "snd (handlePointerUp col bsz now ?p2) =
              (if cs = [] then None
               else Some (onAddDrawing
                 \<lparr> drawing_id = now, drawing_time = v_currentTime v, drawing_color = col,
                   drawing_size = bsz,
                   drawing_path = sample True rect (cx, cy) # map (sample False rect) cs \<rparr>))"
    using g by (cases cs) (simp_all add: handlePointerUp_def)
qed

lemma example_stroke_fields:
  "isDrawing example_stroke" "videoRef example_stroke = Some example_video"
  "currentPathRef example_stroke =
     [\<lparr> path_x = Fin (1 / 4), path_y = Fin (1 / 4), isStart = True \<rparr>,
      \<lparr> path_x = Fin (1 / 2), path_y = Fin (5 / 8), isStart = False \<rparr>]"
  by (simp_all add: example_stroke_def mounted_VideoPlayer_def initial_VideoPlayer_def
        example_rect_def handlePointerDown_def handlePointerMove_def normalizePosition_def
        js_sub_def Let_def double_eval)

theorem handlePointerUp_capture_witness:
  "snd (handlePointerUp ''#ef4444'' (Fin 5) ''1700000000000'' example_stroke) =
     Some (onAddDrawing
       \<lparr> drawing_id = ''1700000000000'', drawing_time = Fin 3, drawing_color = ''#ef4444'',
         drawing_size = Fin 5,
         drawing_path =
           [\<lparr> path_x = Fin (1 / 4), path_y = Fin (1 / 4), isStart = True \<rparr>,
            \<lparr> path_x = Fin (1 / 2), path_y = Fin (5 / 8), isStart = False \<rparr>] \<rparr>)"
  using handlePointerUp_capture [OF example_stroke_fields(1,2),
      of "''#ef4444''" "Fin 5" "''1700000000000''"]
  by (simp add: example_stroke_fields(3) example_video_def)

lemma single_segment_snoc:
  "xs \<noteq> [] \<Longrightarrow> single_segment xs \<Longrightarrow> \<not> isStart q \<Longrightarrow> single_segment (xs @ [q])"
  by (cases xs) (simp_all add: single_segment_def)

lemma reachable_path_inv: "reachable_VideoPlayer p \<Longrightarrow> path_inv p"
proof (induction rule: reachable_VideoPlayer.induct)
  case initial
  show ?case by (simp add: path_inv_def initial_VideoPlayer_def)
next
  case (pointer_down p m cx cy)
  then show ?case
    by (auto simp: path_inv_def handlePointerDown_def single_segment_def Let_def
             split: option.splits ToolMode.splits)
next
  case (pointer_move p m cx cy)
  then show ?case
    by (auto simp: path_inv_def handlePointerMove_def Let_def single_segment_snoc
             split: option.splits)
next
  case (pointer_up p c b now)
  then show ?case
    by (auto simp: path_inv_def handlePointerUp_def split: option.splits)
next
  case (elements p v r cs)
  then show ?case by (simp add: path_inv_def)
qed

lemma draw_path_tail:
  "list_all (\<lambda>r. \<not> isStart r) qs \<Longrightarrow>
   draw_path False w h qs =
     concat (map (\<lambda>r. [lineTo (js_mul (path_x r) w) (js_mul (path_y r) h), stroke, beginPath,
                         moveTo (js_mul (path_x r) w) (js_mul (path_y r) h)]) qs)"
  by (induction qs) (simp_all add: denormalizePosition_def Let_def)

lemma draw_path_single_segment:
  "single_segment path \<Longrightarrow> draw_path True w h path = draw_segment w h path"
  by (cases path) (simp_all add: single_segment_def draw_path_tail denormalizePosition_def Let_def)

text \<open>
  Claim C10. In every state that the playback surface can reach, a drawing that
  \<open>handlePointerUp\<close> emits is of one segment: \<open>isStart\<close> is true for its first point
  and false for every point after it. The render loop therefore draws it as one segment:
  it never moves the pen because of an \<open>isStart\<close> flag after the first point.
\<close>

theorem emitted_drawing_single_segment:
  assumes "reachable_VideoPlayer p"
    and "handlePointerUp col bsz now p = (p', Some (onAddDrawing d))"
  shows "single_segment (drawing_path d) \<and>
         draw_path True w h (drawing_path d) = draw_segment w h (drawing_path d)"
proof -
  have inv: "path_inv p" using assms(1) by (rule reachable_path_inv)
  have d: "drawing_path d = currentPathRef p" and len: "1 < length (currentPathRef p)"
    using assms(2) by (auto simp: handlePointerUp_def split: option.splits if_splits)
  from len have "currentPathRef p \<noteq> []" by auto
  with inv have "single_segment (currentPathRef p)" by (simp add: path_inv_def)
  then show ?thesis using d by (simp add: draw_path_single_segment)
qed

lemma example_stroke_reachable: "reachable_VideoPlayer example_stroke"
  unfolding example_stroke_def mounted_VideoPlayer_def
  by (intro reachable_VideoPlayer.pointer_move reachable_VideoPlayer.pointer_down
        reachable_VideoPlayer.elements reachable_VideoPlayer.initial)

lemma example_stroke_up:
  "handlePointerUp ''#ef4444'' (Fin 5) ''1700000000000'' example_stroke =
     (example_stroke\<lparr> isDrawing := False, currentPathRef := [] \<rparr>,
      Some (onAddDrawing
        \<lparr> drawing_id = ''1700000000000'', drawing_time = Fin 3, drawing_color = ''#ef4444'',
          drawing_size = Fin 5,
          drawing_path =
            [\<lparr> path_x = Fin (1 / 4), path_y = Fin (1 / 4), isStart = True \<rparr>,
             \<lparr> path_x = Fin (1 / 2), path_y = Fin (5 / 8), isStart = False \<rparr>] \<rparr>))"
  by (simp add: handlePointerUp_def example_stroke_fields example_video_def)

theorem emitted_drawing_single_segment_witness:
  "single_segment
     [\<lparr> path_x = Fin (1 / 4), path_y = Fin (1 / 4), isStart = True \<rparr>,
      \<lparr> path_x = Fin (1 / 2), path_y = Fin (5 / 8), isStart = False \<rparr>] \<and>
   draw_path True (Fin 100) (Fin 40)
     [\<lparr> path_x = Fin (1 / 4), path_y = Fin (1 / 4), isStart = True \<rparr>,
      \<lparr> path_x = Fin (1 / 2), path_y = Fin (5 / 8), isStart = False \<rparr>] =
   [moveTo (Fin 25) (Fin 10), lineTo (Fin 50) (Fin 25), stroke, beginPath,
    moveTo (Fin 50) (Fin 25)]"
  using emitted_drawing_single_segment [OF example_stroke_reachable example_stroke_up,
      of "Fin 100" "Fin 40"]
  by (simp add: double_eval Let_def)

lemma reachable_VideoPlayer_video:
  assumes "reachable_VideoPlayer p"
  shows "reachable_VideoPlayer (p\<lparr> videoRef := v, calls := cs \<rparr>)"
  using reachable_VideoPlayer.elements [OF assms, where v = v and r = "containerRef p" and cs = cs]
  by simp

lemma reachable_VideoPlayer_handle:
  assumes "reachable_VideoPlayer p"
  shows "reachable_VideoPlayer (play p)" and "reachable_VideoPlayer (pause p)"
    and "reachable_VideoPlayer (seek t p)" and "reachable_VideoPlayer (setMuted m p)"
  unfolding play_def pause_def seek_def setMuted_def
  using assms by (simp_all add: reachable_VideoPlayer_video)

lemma playerRef_restore:
  "restore data z url s = Some s' \<Longrightarrow> playerRef s' = playerRef s"
  by (auto simp: restore_def store_data_def load_failed_def load_video_def Let_def
      split: if_splits option.splits sum.splits Option.bind_splits)

lemma playerRef_handleAnalysisUpload:
  "handleAnalysisUpload f url s = Some s' \<Longrightarrow> playerRef s' = playerRef s"
  by (auto simp: handleAnalysisUpload_def load_failed_def playerRef_restore
      split: if_splits option.splits sum.splits)

text \<open>
  The playback surface of a reachable state of the application is in a reachable state
  of its own, so the two properties above hold of the application as it runs.
\<close>

lemma reachable_playerRef: "reachable s \<Longrightarrow> reachable_VideoPlayer (playerRef s)"
proof (induction rule: reachable.induct)
  case initial
  show ?case by (simp add: initial_App_def reachable_VideoPlayer.initial)
next
  case (video_upload s f url)
  then show ?case by (simp add: handleVideoUpload_def split: option.splits)
next
  case (analysis_upload s f url s')
  then show ?case by (simp add: playerRef_handleAnalysisUpload)
next
  case (save s today)
  then show ?case by (simp add: saveAnalysis_def Let_def split: option.splits)
next
  case (pointer_down s cx cy w reply id1 id2)
  have "reachable_VideoPlayer (fst (handlePointerDown (toolMode s) cx cy (playerRef s)))"
    using pointer_down.IH by (rule reachable_VideoPlayer.pointer_down)
  then show ?case
    by (auto simp: pointerDown_def handleAddAnnotation_def Let_def reachable_VideoPlayer_handle
        split: prod.splits option.splits callback.splits)
next
  case (pointer_move s cx cy)
  then show ?case by (simp add: pointerMove_def reachable_VideoPlayer.pointer_move)
next
  case (pointer_up s now)
  have "reachable_VideoPlayer
          (fst (handlePointerUp (currentColor s) (brushSize s) now (playerRef s)))"
    using pointer_up.IH by (rule reachable_VideoPlayer.pointer_up)
  then show ?case
    by (auto simp: pointerUp_def handleAddDrawing_def split: prod.splits option.splits callback.splits)
next
  case (toggle s)
  then show ?case by (simp add: togglePlay_def stopClip_def reachable_VideoPlayer_handle)
next
  case (button s c)
  then show ?case
    by (simp add: clip_button_def playClip_def stopClip_def Let_def reachable_VideoPlayer_handle)
next
  case (timeout s)
  then show ?case by (simp add: playClip_timeout_def reachable_VideoPlayer_handle)
next
  case (effect s)
  then show ?case
    by (simp add: monitorClipEnd_def reachable_VideoPlayer_handle split: option.splits)
next
  case (delete_clip s i)
  then show ?case by (simp add: handleDeleteClip_def)
next
  case (delete_annotation s i)
  then show ?case by (simp add: handleDeleteAnnotation_def)
next
  case (clear s b)
  then show ?case by (simp add: clearAll_def stopClip_def reachable_VideoPlayer_handle)
next
  case (time_update s t)
  then show ?case by simp
next
  case (duration_change s d)
  then show ?case by simp
next
  case (controls s m c n b)
  then show ?case by simp
next
  case (elements s a b)
  from elements.IH
  have "\<And>v r. reachable_VideoPlayer
          ((playerRef s)\<lparr> videoRef := v, containerRef := r, calls := calls (playerRef s) \<rparr>)"
    by (rule reachable_VideoPlayer.elements)
  then show ?case by simp
qed

section \<open>Properties of the archive\<close>

lemma as_number_JSON_number: "isFinite n \<Longrightarrow> as_number (JSON_number n) = Some n"
  by (cases n) simp_all

lemma those_map_Some:
  "list_all (\<lambda>x. f (g x) = Some x) xs \<Longrightarrow> those (map (\<lambda>x. f (g x)) xs) = Some xs"
  by (induction xs) simp_all

lemma as_array_JArr:
  assumes "list_all P xs" and "\<And>x. P x \<Longrightarrow> f (g x) = Some x"
  shows "as_array f (JArr (map g xs)) = Some xs"
proof -
  have "list_all (\<lambda>x. f (g x) = Some x) xs"
    using assms by (simp add: list_all_iff)
  then have "those (map (\<lambda>x. f (g x)) xs) = Some xs" by (rule those_map_Some)
  then show ?thesis by (simp add: comp_def)
qed




lemma as_Clip_JSON: "finite_Clip c \<Longrightarrow> as_Clip (JSON_Clip c) = Some c"
  by (simp add: finite_Clip_def as_Clip_def JSON_Clip_def field_def as_number_JSON_number)


lemma or_empty_array_JArr:
  assumes "list_all P xs" and "\<And>x. P x \<Longrightarrow> f (g x) = Some x"
  shows "or_empty_array f (Some (JArr (map g xs))) = Some xs"
  using as_array_JArr [OF assms] by (simp add: or_empty_array_def)




lemma loaded_App_fields:
  "primaryVideoFile (loaded_App f) = Some f"
  "clips (loaded_App f) = []" "annotations (loaded_App f) = []"
  "drawings (loaded_App f) = []" "notes (loaded_App f) = []"
  "toolMode (loaded_App f) = point_mode" "currentColor (loaded_App f) = ''#ef4444''"
  "isSidebarOpen (loaded_App f) = False"
  "videoRef (playerRef (loaded_App f)) = Some example_video"
  "containerRef (playerRef (loaded_App f)) = Some example_rect"
  by (simp_all add: loaded_App_def handleVideoUpload_def initial_App_def Let_def)


lemma example_session_fields:
  "primaryVideoFile example_session = Some example_file"
  "clips example_session =
     [\<lparr> clip_id = ''c1'', clip_name = ''Point 1'', startTime = Fin (5 / 2), endTime = Fin (9 / 2),
        clip_duration = Fin 2, speed = Fin (1 / 2), zoomX = Fin (1 / 4), zoomY = Fin (1 / 4) \<rparr>]"
  "annotations example_session =
     [\<lparr> anno_id = ''a1'', anno_x = Fin (1 / 4), anno_y = Fin (1 / 4), anno_time = Fin 3,
        anno_text = ''Point 1'', anno_color = ''#ef4444'' \<rparr>]"
  "drawings example_session = []"
  "notes example_session = []"
  by (simp_all add: example_session_def pointerDown_def handlePointerDown_def loaded_App_fields
      normalizePosition_def example_rect_def example_video_def handleAddAnnotation_def Let_def
      js_sub_def double_eval)








lemma store_data_frame:
  "store_data data s = Some s1 \<Longrightarrow>
   videoSrc s1 = videoSrc s \<and> primaryVideoFile s1 = primaryVideoFile s \<and> alerts s1 = alerts s"
  by (auto simp: store_data_def split: Option.bind_splits)

text \<open>
  Claim C3, as the program has it. An exception raised while the archive is opened, while
  the metadata entry is read, by \<open>JSON.parse\<close>, or by the access to a member of \<open>null\<close>,
  ends the load with the notification and with no other change of the state. An
  exception raised while the video entry is read ends the load with the same
  notification after the notes, drawings, annotations and clips of the document were
  stored: these stay stored, and the video is as it was. A video entry that is absent
  keeps the stored data as well, with a warning in place of the notification.
\<close>

theorem handleAnalysisUpload_failures:
  "let H = handleAnalysisUpload (Some f) url s in
   (JSZip_loadAsync f = Inl e \<longrightarrow> H = Some (load_failed s)) \<and>
   (JSZip_loadAsync f = Inr z \<and> z ''analysis_data.json'' = Some entry \<longrightarrow>
      (async_string entry = Inl e \<longrightarrow> H = Some (load_failed s)) \<and>
      (async_string entry = Inr Malformed \<longrightarrow> H = Some (load_failed s)) \<and>
      (async_string entry = Inr (Document JNull) \<longrightarrow> H = Some (load_failed s)) \<and>
      (async_string entry = Inr (Document data) \<and> data \<noteq> JNull \<and>
       store_data data s = Some s1 \<and>
       truthy_name (member data ''primaryVideoFileName'') = Some (Some name) \<longrightarrow>
         videoSrc s1 = videoSrc s \<and> primaryVideoFile s1 = primaryVideoFile s \<and>
         alerts s1 = alerts s \<and>
         (z name = Some Damaged \<longrightarrow> H = Some (load_failed s1)) \<and>
         (z name = None \<longrightarrow> H = Some (s1\<lparr> alerts := alerts s1 @ [video_not_found name] \<rparr>)))) \<and>
   load_failed s = s\<lparr> alerts := alerts s @ [''Failed to load analysis file.''] \<rparr>"
proof -
  have early: "handleAnalysisUpload (Some f) url s = Some (load_failed s)"
    if "JSZip_loadAsync f = Inl e"
    using that by (simp add: handleAnalysisUpload_def)
  have read: "handleAnalysisUpload (Some f) url s = Some (load_failed s)"
    if "JSZip_loadAsync f = Inr z" "z ''analysis_data.json'' = Some entry"
      "async_string entry = Inl e \<or> async_string entry = Inr Malformed \<or>
       async_string entry = Inr (Document JNull)"
    using that by (auto simp: handleAnalysisUpload_def JSON_parse_def restore_def)
  have video: "handleAnalysisUpload (Some f) url s = Some (load_video z name url s1)"
    if "JSZip_loadAsync f = Inr z" "z ''analysis_data.json'' = Some entry"
      "async_string entry = Inr (Document data)" "data \<noteq> JNull" "store_data data s = Some s1"
      "truthy_name (member data ''primaryVideoFileName'') = Some (Some name)"
    using that by (simp add: handleAnalysisUpload_def JSON_parse_def restore_def)
  have damaged: "load_video z name url s1 = load_failed s1" if "z name = Some Damaged"
    using that by (simp add: load_video_def async_blob_def)
  have absent: "load_video z name url s1 = s1\<lparr> alerts := alerts s1 @ [video_not_found name] \<rparr>"
    if "z name = None"
    using that by (simp add: load_video_def)
  show ?thesis
    unfolding Let_def
    using early read video damaged absent store_data_frame [of data s s1]
    by (auto simp: load_failed_def)
qed

lemma damaged_archive_load:
  "handleAnalysisUpload (Some damaged_archive) ''blob:1'' initial_App =
     Some (load_failed (initial_App\<lparr> notes := ''knee valgus'', drawings := [], annotations := [],
                                      clips := [twin_clip ''first''] \<rparr>))"
proof -
  have c: "or_empty_array as_Clip (Some (JArr (map JSON_Clip [twin_clip ''first'']))) =
             Some [twin_clip ''first'']"
    by (rule or_empty_array_JArr [where P = finite_Clip])
       (simp_all add: as_Clip_JSON finite_Clip_def twin_clip_def)
  show ?thesis
    using c
    by (simp add: damaged_archive_def handleAnalysisUpload_def JSZip_loadAsync_def
        async_string_def JSON_stringify_def JSON_parse_def restore_def store_data_def
        or_empty_string_def or_empty_array_def truthy_name_def load_video_def async_blob_def)
qed

theorem handleAnalysisUpload_failures_witness:
  "handleAnalysisUpload (Some NotZip) ''blob:1'' initial_App = Some (load_failed initial_App) \<and>
   handleAnalysisUpload (Some (Zip [''analysis_data.json'' \<mapsto> Stored (Binary [80, 75])]))
     ''blob:1'' initial_App = Some (load_failed initial_App) \<and>
   handleAnalysisUpload (Some damaged_archive) ''blob:1'' initial_App =
     Some (load_failed (initial_App\<lparr> notes := ''knee valgus'', drawings := [], annotations := [],
                                      clips := [twin_clip ''first''] \<rparr>))"
proof -
  define doc where
    "doc = JObj [(''version'', JStr ''1.0''), (''notes'', JStr ''knee valgus''),
       (''drawings'', JArr []), (''annotations'', JArr []),
       (''clips'', JArr [JSON_Clip (twin_clip ''first'')]),
       (''primaryVideoFileName'', JStr ''jump.mp4'')]"
  define z where
    "z = [''analysis_data.json'' \<mapsto> Stored (Encoded (Document doc)), ''jump.mp4'' \<mapsto> Damaged]"
  define s1 where
    "s1 = initial_App\<lparr> notes := ''knee valgus'', drawings := [], annotations := [],
                        clips := [twin_clip ''first''] \<rparr>"
  have archive: "damaged_archive = Zip z"
    by (simp add: damaged_archive_def z_def doc_def JSON_stringify_def)
  have c: "or_empty_array as_Clip (Some (JArr (map JSON_Clip [twin_clip ''first'']))) =
             Some [twin_clip ''first'']"
    by (rule or_empty_array_JArr [where P = finite_Clip])
       (simp_all add: as_Clip_JSON finite_Clip_def twin_clip_def)
  have stored: "store_data doc initial_App = Some s1"
    using c by (simp add: doc_def s1_def store_data_def or_empty_string_def or_empty_array_def)
  have name: "truthy_name (member doc ''primaryVideoFileName'') = Some (Some ''jump.mp4'')"
    by (simp add: doc_def truthy_name_def)
  have entries: "z ''analysis_data.json'' = Some (Stored (Encoded (Document doc)))"
    "z ''jump.mp4'' = Some Damaged" "doc \<noteq> JNull"
    by (simp_all add: z_def doc_def)
  have third: "handleAnalysisUpload (Some damaged_archive) ''blob:1'' initial_App =
      Some (load_failed s1)"
    unfolding archive
    using handleAnalysisUpload_failures
      [of "Zip z" "''blob:1''" initial_App ZipError z "Stored (Encoded (Document doc))"
          doc s1 "''jump.mp4''"]
      stored name entries
    by (simp add: JSZip_loadAsync_def async_string_def Let_def)
  have first: "handleAnalysisUpload (Some NotZip) ''blob:1'' initial_App =
      Some (load_failed initial_App)"
    using handleAnalysisUpload_failures [of NotZip "''blob:1''" initial_App ZipError]
    by (simp add: JSZip_loadAsync_def Let_def)
  have second:
    "handleAnalysisUpload (Some (Zip [''analysis_data.json'' \<mapsto> Stored (Binary [80, 75])]))
       ''blob:1'' initial_App = Some (load_failed initial_App)"
    using handleAnalysisUpload_failures
      [of "Zip [''analysis_data.json'' \<mapsto> Stored (Binary [80, 75])]" "''blob:1''" initial_App
          ZipError "[''analysis_data.json'' \<mapsto> Stored (Binary [80, 75])]"
          "Stored (Binary [80, 75])"]
    by (simp add: JSZip_loadAsync_def async_string_def Let_def)
  show ?thesis using first second third by (simp only: s1_def simp_thms)
qed

text \<open>
  Claim C3 as it was stated leaves the state as it was whenever an exception is raised.
  The archive below holds well-formed data and a damaged video entry: the load fails
  with the notification, and the notes and the clip of the archive are in the state.
\<close>

theorem handleAnalysisUpload_partial_commit:
  "map_option alerts (handleAnalysisUpload (Some damaged_archive) ''blob:1'' initial_App) =
     Some [''Failed to load analysis file.''] \<and>
   map_option notes (handleAnalysisUpload (Some damaged_archive) ''blob:1'' initial_App) =
     Some ''knee valgus'' \<and>
   map_option clips (handleAnalysisUpload (Some damaged_archive) ''blob:1'' initial_App) =
     Some [twin_clip ''first''] \<and>
   notes initial_App = [] \<and> clips initial_App = []"
  unfolding damaged_archive_load by (simp add: load_failed_def initial_App_def)

section \<open>Properties of the clip playback\<close>

lemma filter_eq_id_le_1:
  "distinct (map f xs) \<Longrightarrow> length (filter (\<lambda>x. a = f x) xs) \<le> 1"
proof (induction xs)
  case Nil
  show ?case by simp
next
  case (Cons x xs)
  show ?case
  proof (cases "a = f x")
    case True
    with Cons.prems have "f x \<notin> f ` set xs" by simp
    then have "filter (\<lambda>y. a = f y) xs = []" using True by (auto simp: filter_empty_conv)
    then show ?thesis using True by simp
  next
    case False
    then show ?thesis using Cons by simp
  qed
qed

lemma marked_active_le_1:
  assumes "distinct (map clip_id (clips s))"
  shows "length (filter (marked_active s) (clips s)) \<le> 1"
proof (cases "activeClipId s")
  case None
  then show ?thesis by (simp add: marked_active_def)
next
  case (Some a)
  then have "marked_active s = (\<lambda>c. a = clip_id c)"
    by (auto simp: marked_active_def)
  then show ?thesis using filter_eq_id_le_1 [OF assms, of a] by simp
qed

lemma playClip_after_stopClip:
  assumes "truthy_id (activeClipId s)"
  shows "playClip c s = playClip c (stopClip s)"
    and "activeClipId (stopClip s) = None"
    and "playbackSpeed (stopClip s) = Fin 1"
    and "calls (playerRef (stopClip s)) = calls (playerRef s) @ [Pause, SetMuted False]"
    and "activeClipId (playClip c s) = Some (clip_id c)"
    and "playbackSpeed (playClip c s) = Fin 1"
    and "calls (playerRef (playClip c s)) =
           calls (playerRef s) @ [Pause, SetMuted False, Pause, SetMuted True, Seek (startTime c)]"
    and "videoRef (playerRef (playClip c s)) =
           map_option (\<lambda>v. \<lparr> v_currentTime = startTime c, v_paused = True, v_muted = True \<rparr>)
             (videoRef (playerRef s))"
  using assms
  by (cases "videoRef (playerRef s)";
      simp add: playClip_def stopClip_def Let_def pause_def setMuted_def seek_def)+

text \<open>
  Claim C4, as the program has it. The state names at most one active identifier: the
  clips that the sidebar marks as active all carry it, and they are at most one when the
  identifiers of the listed clips are distinct. When \<open>playClip\<close> is invoked while an
  identifier is active (\<open>activeClipId\<close> is truthy), it runs \<open>stopClip\<close> first (the active
  identifier is cleared, the video is paused and unmuted, the nominal speed is reset to
  1) and then marks the new clip, pauses, mutes and seeks to the start of the clip.
\<close>

theorem playClip_one_active:
  "(marked_active s c \<and> marked_active s c' \<longrightarrow> clip_id c = clip_id c') \<and>
   (distinct (map clip_id (clips s)) \<longrightarrow> length (filter (marked_active s) (clips s)) \<le> 1) \<and>
   (truthy_id (activeClipId s) \<longrightarrow>
      playClip c s = playClip c (stopClip s) \<and>
      activeClipId (stopClip s) = None \<and>
      playbackSpeed (stopClip s) = Fin 1 \<and>
      calls (playerRef (stopClip s)) = calls (playerRef s) @ [Pause, SetMuted False] \<and>
      activeClipId (playClip c s) = Some (clip_id c) \<and>
      playbackSpeed (playClip c s) = Fin 1 \<and>
      calls (playerRef (playClip c s)) =
        calls (playerRef s) @ [Pause, SetMuted False, Pause, SetMuted True, Seek (startTime c)] \<and>
      videoRef (playerRef (playClip c s)) =
        map_option (\<lambda>v. \<lparr> v_currentTime = startTime c, v_paused = True, v_muted = True \<rparr>)
          (videoRef (playerRef s)))"
proof (intro conjI impI)
  assume "marked_active s c \<and> marked_active s c'"
  then show "clip_id c = clip_id c'" by (auto simp: marked_active_def)
next
  assume "distinct (map clip_id (clips s))"
  then show "length (filter (marked_active s) (clips s)) \<le> 1" by (rule marked_active_le_1)
qed (rule playClip_after_stopClip, assumption)+

lemma twin_state_fields:
  "activeClipId twin_state = Some ''a''"
  "clips twin_state = [twin_clip ''first'', twin_clip ''second'']"
  "playbackSpeed twin_state = Fin 1"
  "calls (playerRef twin_state) = [Pause, SetMuted True, Seek (Fin 0)]"
  by (simp_all add: twin_state_def clip_button_def marked_active_def playClip_def initial_App_def
      initial_VideoPlayer_def twin_clip_def pause_def setMuted_def seek_def Let_def)

theorem playClip_one_active_witness:
  "activeClipId (playClip (twin_clip ''second'') twin_state) = Some ''a'' \<and>
   playbackSpeed (playClip (twin_clip ''second'') twin_state) = Fin 1 \<and>
   calls (playerRef (playClip (twin_clip ''second'') twin_state)) =
     [Pause, SetMuted True, Seek (Fin 0),
      Pause, SetMuted False, Pause, SetMuted True, Seek (Fin 0)] \<and>
   length (filter (marked_active example_session) (clips example_session)) \<le> 1"
proof -
  have active: "truthy_id (activeClipId twin_state)"
    by (simp add: twin_state_fields)
  have "activeClipId (playClip (twin_clip ''second'') twin_state) =
          Some (clip_id (twin_clip ''second'')) \<and>
        playbackSpeed (playClip (twin_clip ''second'') twin_state) = Fin 1 \<and>
        calls (playerRef (playClip (twin_clip ''second'') twin_state)) =
          calls (playerRef twin_state) @
          [Pause, SetMuted False, Pause, SetMuted True, Seek (startTime (twin_clip ''second''))]"
    using playClip_one_active [where s = twin_state and c = "twin_clip ''second''"] active
    by blast
  then have played:
    "activeClipId (playClip (twin_clip ''second'') twin_state) = Some ''a'' \<and>
     playbackSpeed (playClip (twin_clip ''second'') twin_state) = Fin 1 \<and>
     calls (playerRef (playClip (twin_clip ''second'') twin_state)) =
       [Pause, SetMuted True, Seek (Fin 0),
        Pause, SetMuted False, Pause, SetMuted True, Seek (Fin 0)]"
    by (simp add: twin_state_fields twin_clip_def)
  have "distinct (map clip_id (clips example_session))"
    by (simp add: example_session_fields)
  then have "length (filter (marked_active example_session) (clips example_session)) \<le> 1"
    using playClip_one_active [where s = example_session] by blast
  with played show ?thesis by blast
qed

lemma twin_archive_load:
  "handleAnalysisUpload (Some twin_archive) ''blob:1'' initial_App =
     Some (initial_App\<lparr> clips := [twin_clip ''first'', twin_clip ''second''] \<rparr>)"
proof -
  have c: "or_empty_array as_Clip
             (Some (JArr (map JSON_Clip [twin_clip ''first'', twin_clip ''second'']))) =
           Some [twin_clip ''first'', twin_clip ''second'']"
    by (rule or_empty_array_JArr [where P = finite_Clip])
       (simp_all add: as_Clip_JSON finite_Clip_def twin_clip_def)
  show ?thesis
    using c
    by (simp add: twin_archive_def handleAnalysisUpload_def JSZip_loadAsync_def
        async_string_def JSON_stringify_def JSON_parse_def restore_def store_data_def
        or_empty_string_def or_empty_array_def truthy_name_def initial_App_def)
qed

lemma twin_state_reachable: "reachable twin_state"
proof -
  have "reachable (initial_App\<lparr> clips := [twin_clip ''first'', twin_clip ''second''] \<rparr>)"
    using reachable.initial twin_archive_load by (rule reachable.analysis_upload)
  then show ?thesis
    unfolding twin_state_def by (rule reachable.button) simp
qed

text \<open>
  Claim C4 as it was stated has at most one clip marked active in every reachable state.
  Identifiers are not checked when an archive is loaded: after loading an archive with
  two clips of one identifier and playing the first, both clips are marked active.
\<close>

theorem two_clips_marked_active:
  "reachable twin_state \<and> length (filter (marked_active twin_state) (clips twin_state)) = 2"
  using twin_state_reachable
  by (simp add: twin_state_fields marked_active_def twin_clip_def)




end
